theory Spec2Isabelle
  imports Complex_Main "HOL-Library.Multiset" "HOL-Library.Log_Nat"
begin

section \<open>The local artefact registry of artie (registry/fileRegistry.go)\<close>

subsection \<open>Data model\<close>

text \<open>
  The structs \<^verbatim>\<open>artefact\<close>, \<^verbatim>\<open>repository\<close> and \<^verbatim>\<open>FileRegistry\<close> of the source. The
  field \<^verbatim>\<open>Id\<close> is written \<open>Id'\<close>, since \<open>Id\<close> is the identity relation of HOL.
  Go strings are byte sequences: \<open>string\<close>.
\<close>

record artefact =
  Id' :: string
  Type :: string
  FileRef :: string
  Tags :: "string list"
  Size :: string
  Created :: string

record repository =
  Repository :: string
  Artefacts :: "artefact list"

record FileRegistry =
  Repositories :: "repository list"

text \<open>
  Modelled from the spec: \<^verbatim>\<open>core.ArtieName\<close>, whose declaration is not among the source
  files. The spec gives the contract of the name resolver as
  reference \<open>\<rightarrow>\<close> {tag, bare name fragment, canonical fully-qualified repository name},
  plus a same-repository comparison between two references. The record holds these three
  components; \<^verbatim>\<open>FullyQualifiedName()\<close> reads the third one and
  \<^verbatim>\<open>IsInTheSameRepositoryAs\<close> compares the fully-qualified names.
\<close>

record ArtieName =
  Name :: string
  Tag :: string
  Qualified :: string

definition FullyQualifiedName :: "ArtieName \<Rightarrow> string" where
  "FullyQualifiedName name = Qualified name"

definition IsInTheSameRepositoryAs :: "ArtieName \<Rightarrow> ArtieName \<Rightarrow> bool" where
  "IsInTheSameRepositoryAs a b = (FullyQualifiedName a = FullyQualifiedName b)"

text \<open>
  The source holds repositories and artefacts through pointers
  (\<^verbatim>\<open>[]*repository\<close>, \<^verbatim>\<open>[]*artefact\<close>). No operation stores one artefact object in two
  slices (Add and Tag allocate every record they append), so an artefact pointer is the
  position of the artefact: the index of its repository and its index in the repository.
\<close>

type_synonym loc = "nat \<times> nat"

definition artefact_at :: "FileRegistry \<Rightarrow> loc \<Rightarrow> artefact" where
  "artefact_at r l = Artefacts (Repositories r ! fst l) ! snd l"

definition valid_loc :: "FileRegistry \<Rightarrow> loc \<Rightarrow> bool" where
  "valid_loc r l =
     (fst l < length (Repositories r) \<and> snd l < length (Artefacts (Repositories r ! fst l)))"

text \<open>
  The ways a command of the source ends without returning: \<^verbatim>\<open>log.Fatal\<close>,
  \<^verbatim>\<open>core.CheckErr\<close> on an error, \<^verbatim>\<open>core.RaiseErr\<close> and the run-time panics of Go.
\<close>

datatype error =
    NotZip                \<comment> \<open>Add: the file is not a zip file\<close>
  | IOFailure             \<comment> \<open>a file to move or to remove is not there\<close>
  | Ambiguous nat         \<comment> \<open>GetArtefact: the Id hint matches that many artefacts\<close>
  | SourceMissing         \<comment> \<open>Tag: the source artefact does not exist\<close>
  | NilDereference        \<comment> \<open>a field of a nil pointer is read\<close>
  | SliceBounds           \<comment> \<open>a slice expression is out of range\<close>
  | BadTime               \<comment> \<open>the creation time does not parse\<close>

subsection \<open>Lookup\<close>

text \<open>\<^verbatim>\<open>strings.Contains(s, substr)\<close>: \<open>substr\<close> occurs in \<open>s\<close> as a contiguous block.\<close>

fun Contains :: "string \<Rightarrow> string \<Rightarrow> bool" where
  "Contains [] substr = (substr = [])"
| "Contains (c # s) substr = (take (length substr) (c # s) = substr \<or> Contains s substr)"

text \<open>The index of the first element a loop with \<^verbatim>\<open>break\<close> or \<^verbatim>\<open>return\<close> stops at.\<close>

fun first_index :: "('a \<Rightarrow> bool) \<Rightarrow> 'a list \<Rightarrow> nat option" where
  "first_index P [] = None"
| "first_index P (x # xs) = (if P x then Some 0 else map_option Suc (first_index P xs))"

definition HasTag :: "artefact \<Rightarrow> string \<Rightarrow> bool" where
  "HasTag a tag = (tag \<in> set (Tags a))"

definition holds_id_hint :: "string \<Rightarrow> repository \<Rightarrow> bool" where
  "holds_id_hint hint repo = list_ex (\<lambda>artie. Contains (Id' artie) hint) (Artefacts repo)"

text \<open>
  \<^verbatim>\<open>findRepository\<close>: the first repository with the fully-qualified name; without one,
  the first repository with an artefact whose Id contains \<^verbatim>\<open>name.Name\<close>; else nil.
\<close>

definition findRepository :: "FileRegistry \<Rightarrow> ArtieName \<Rightarrow> nat option" where
  "findRepository r name =
     (case first_index (\<lambda>repo. Repository repo = FullyQualifiedName name) (Repositories r) of
        Some i \<Rightarrow> Some i
      | None \<Rightarrow> first_index (holds_id_hint (Name name)) (Repositories r))"

text \<open>
  The artefacts of repository number \<open>i\<close> whose Id contains the hint, in order: what the
  second inner loop of \<^verbatim>\<open>GetArtefact\<close> appends to \<^verbatim>\<open>artefactsFound\<close>.
\<close>

definition id_matches :: "nat \<Rightarrow> artefact list \<Rightarrow> string \<Rightarrow> loc list" where
  "id_matches i as hint =
     map (\<lambda>j. (i, j)) (filter (\<lambda>j. Contains (Id' (as ! j)) hint) [0..<length as])"

text \<open>
  The end of \<^verbatim>\<open>GetArtefact\<close>: nil when nothing was found, else \<^verbatim>\<open>artefactsFound[0]\<close>.
\<close>

fun first_found :: "loc list \<Rightarrow> loc option" where
  "first_found [] = None"
| "first_found (l # ls) = Some l"

text \<open>
  The loop of \<^verbatim>\<open>GetArtefact\<close> over the repositories, from repository number \<open>i\<close> on, with
  \<^verbatim>\<open>artefactsFound\<close> as accumulator. In the repository with the fully-qualified name the
  first artefact carrying the tag is returned; without one the loop is left
  (\<^verbatim>\<open>break\<close>). Any other repository adds its Id matches, and more than one match so far
  raises the error.

  Modelled from the spec: \<^verbatim>\<open>core.RaiseErr\<close> is not among the source files; by the spec
  an ambiguity error aborts the current command immediately, so the loop ends with the
  error, which carries the count the message prints.
\<close>

fun GetArtefact_loop :: "ArtieName \<Rightarrow> repository list \<Rightarrow> nat \<Rightarrow> loc list \<Rightarrow> error + loc option" where
  "GetArtefact_loop name [] i found = Inr (first_found found)"
| "GetArtefact_loop name (repo # rest) i found =
     (if Repository repo = FullyQualifiedName name then
        (case first_index (\<lambda>a. HasTag a (Tag name)) (Artefacts repo) of
           Some j \<Rightarrow> Inr (Some (i, j))
         | None \<Rightarrow> Inr (first_found found))
      else
        (let found' = found @ id_matches i (Artefacts repo) (Name name) in
         if length found' > 1 then Inl (Ambiguous (length found'))
         else GetArtefact_loop name rest (Suc i) found'))"

definition GetArtefact :: "FileRegistry \<Rightarrow> ArtieName \<Rightarrow> error + loc option" where
  "GetArtefact r name = GetArtefact_loop name (Repositories r) 0 []"

text \<open>
  All artefacts of the repositories, from number \<open>i\<close> on, whose Id contains the hint:
  the substring search over all artefacts in the words of the specification.
\<close>

fun all_id_matches :: "nat \<Rightarrow> repository list \<Rightarrow> string \<Rightarrow> loc list" where
  "all_id_matches i [] hint = []"
| "all_id_matches i (repo # rest) hint =
     id_matches i (Artefacts repo) hint @ all_id_matches (Suc i) rest hint"

subsection \<open>The registry, its document and its files\<close>

text \<open>
  Modelled from the spec: \<^verbatim>\<open>core.Seal\<close> and \<^verbatim>\<open>core.ArtefactId\<close> are not among the source
  files. By the spec the seal provider yields a content identifier, a type label, a size
  label and a creation-time label; \<open>ArtefactId\<close> stands for \<^verbatim>\<open>core.ArtefactId(s)\<close> and the
  other fields for \<^verbatim>\<open>s.Manifest.Type\<close>, \<^verbatim>\<open>s.Manifest.Size\<close> and \<^verbatim>\<open>s.Manifest.Time\<close>.
\<close>

record Seal =
  ArtefactId :: string
  ManifestType :: string
  ManifestSize :: string
  ManifestTime :: string

text \<open>
  What a command works on: the index in memory (the receiver \<^verbatim>\<open>r\<close>), the persisted
  document \<^verbatim>\<open>repository.json\<close>, the files of the file system by path, and the home
  directory of the user (\<^verbatim>\<open>core.HomeDir()\<close>, read from the operating system).
\<close>

record world =
  registry :: FileRegistry
  document :: FileRegistry
  files :: "string set"
  HomeDir :: string

text \<open>
  \<^verbatim>\<open>filepath.Join\<close> of a directory name that is clean already (as \<^verbatim>\<open>filepath.Dir\<close> and
  \<^verbatim>\<open>filepath.Join\<close> return it) and a single path element: the cleaned path drops a
  leading \<^verbatim>\<open>./\<close> and does not double the slash of the root.
\<close>

definition Join :: "string \<Rightarrow> string \<Rightarrow> string" where
  "Join dir elem =
     (if dir = [] \<or> dir = ''.'' then elem
      else if dir = ''/'' then ''/'' @ elem
      else dir @ ''/'' @ elem)"

text \<open>\<^verbatim>\<open>core.RegistryPath\<close> (core/paths.go), which \<^verbatim>\<open>FileRegistry.Path\<close> returns.\<close>

definition RegistryPath :: "world \<Rightarrow> string" where
  "RegistryPath w = Join (HomeDir w) ''.artie''"

text \<open>
  \<^verbatim>\<open>path.Ext\<close>: the suffix from the final dot of the final slash-separated element on, empty
  without such a dot. The scan runs from the end of the path; \<open>seen\<close> is what it passed.
\<close>

fun Ext_scan :: "string \<Rightarrow> string \<Rightarrow> string" where
  "Ext_scan [] seen = []"
| "Ext_scan (c # front) seen =
     (if c = CHR ''/'' then []
      else if c = CHR ''.'' then c # seen
      else Ext_scan front (c # seen))"

definition Ext :: "string \<Rightarrow> string" where
  "Ext p = Ext_scan (rev p) []"

definition TrimSuffix :: "string \<Rightarrow> string \<Rightarrow> string" where
  "TrimSuffix s suffix =
     (if length suffix \<le> length s \<and> drop (length s - length suffix) s = suffix
      then take (length s - length suffix) s else s)"

text \<open>
  The file name handed to Add, as \<^verbatim>\<open>filepath.Dir\<close> and \<^verbatim>\<open>filepath.Base\<close> split it: the
  directory (clean) and the last element. The file system knows the file by the path
  that joins the two.
\<close>

record filename =
  Dir :: string
  Base :: string

text \<open>
  Modelled from the spec: \<^verbatim>\<open>RenameFile\<close> is not among the source files. By the spec Add
  relocates the blob and its manifest into the storage directory of the registry, and an
  I/O error aborts the command: the file moves from the one path to the other, and a
  source that is not there is the error.
\<close>

definition RenameFile :: "string set \<Rightarrow> string \<Rightarrow> string \<Rightarrow> error + string set" where
  "RenameFile fs src dst = (if src \<in> fs then Inr (insert dst (fs - {src})) else Inl IOFailure)"

text \<open>
  \<^verbatim>\<open>save\<close>: the whole index is written to the document. Every field of the three structs
  has a JSON name, so the document holds the index as it is. (A failing write is a fault
  of the environment and is left out.)
\<close>

definition save :: "world \<Rightarrow> world" where
  "save w = w\<lparr>document := registry w\<rparr>"

subsection \<open>Updates of the index\<close>

definition update_repository :: "FileRegistry \<Rightarrow> nat \<Rightarrow> (repository \<Rightarrow> repository) \<Rightarrow> FileRegistry" where
  "update_repository r i f = r\<lparr>Repositories := (Repositories r)[i := f (Repositories r ! i)]\<rparr>"

definition update_artefact :: "FileRegistry \<Rightarrow> loc \<Rightarrow> (artefact \<Rightarrow> artefact) \<Rightarrow> FileRegistry" where
  "update_artefact r l f =
     update_repository r (fst l)
       (\<lambda>repo. repo\<lparr>Artefacts := (Artefacts repo)[snd l := f (Artefacts repo ! snd l)]\<rparr>)"

text \<open>
  Modelled from the spec: \<^verbatim>\<open>core.RemoveElement\<close> is not among the source files. By the
  spec, Untag removes one tag string from the tag list of one artefact: the first
  occurrence of the value goes, the other entries stay.
\<close>

definition RemoveElement :: "string list \<Rightarrow> string \<Rightarrow> string list" where
  "RemoveElement a v = remove1 v a"

text \<open>\<^verbatim>\<open>unTag\<close>: the artefact the reference resolves to loses the tag; nil changes nothing.\<close>

definition unTag :: "FileRegistry \<Rightarrow> ArtieName \<Rightarrow> string \<Rightarrow> error + FileRegistry" where
  "unTag r name tag =
     (case GetArtefact r name of
        Inl e \<Rightarrow> Inl e
      | Inr None \<Rightarrow> Inr r
      | Inr (Some artie) \<Rightarrow>
          Inr (update_artefact r artie (\<lambda>a. a\<lparr>Tags := RemoveElement (Tags a) tag\<rparr>)))"

subsection \<open>Add\<close>

text \<open>
  \<^verbatim>\<open>Add\<close>: the zip file and its seal move into the registry directory, the tag is taken
  from the artefact the reference resolves to, the repository is found or appended, the
  new artefact is appended to it, and the index is saved.
\<close>

definition new_repository :: "ArtieName \<Rightarrow> FileRegistry \<Rightarrow> FileRegistry \<times> nat" where
  "new_repository name r =
     (case findRepository r name of
        Some i \<Rightarrow> (r, i)
      | None \<Rightarrow>
          (r\<lparr>Repositories := Repositories r @
                [\<lparr>Repository = FullyQualifiedName name, Artefacts = []\<rparr>]\<rparr>,
           length (Repositories r)))"

definition Add :: "world \<Rightarrow> filename \<Rightarrow> ArtieName \<Rightarrow> Seal \<Rightarrow> error + world" where
  "Add w file name s =
     (let basename = Base file;
          basenameDir = Dir file;
          basenameExt = Ext basename;
          basenameNoExt = TrimSuffix basename (Ext basename)
      in
      if basenameExt \<noteq> ''.zip'' then Inl NotZip
      else
        case RenameFile (files w) (Join basenameDir basename) (Join (RegistryPath w) basename) of
          Inl e \<Rightarrow> Inl e
        | Inr fs1 \<Rightarrow>
        case RenameFile fs1 (Join basenameDir (basenameNoExt @ ''.json''))
               (Join (RegistryPath w) (basenameNoExt @ ''.json'')) of
          Inl e \<Rightarrow> Inl e
        | Inr fs2 \<Rightarrow>
        case unTag (registry w) name (Tag name) of
          Inl e \<Rightarrow> Inl e
        | Inr r1 \<Rightarrow>
        case new_repository name r1 of
          (r2, repo) \<Rightarrow>
            Inr (save (w\<lparr>registry :=
                   update_repository r2 repo
                     (\<lambda>rp. rp\<lparr>Artefacts := Artefacts rp @
                        [\<lparr>Id' = ArtefactId s, Type = ManifestType s, FileRef = basenameNoExt,
                          Tags = [Tag name], Size = ManifestSize s,
                          Created = ManifestTime s\<rparr>]\<rparr>),
                   files := fs2\<rparr>)))"

subsection \<open>Removal of list entries\<close>

text \<open>
  The tail of \<^verbatim>\<open>removeArtefactById\<close> and \<^verbatim>\<open>removeRepoByName\<close>: \<^verbatim>\<open>a[i] = a[len(a)-1]\<close>, then
  the slice loses its last entry.
\<close>

definition remove_index :: "'a list \<Rightarrow> nat \<Rightarrow> 'a list" where
  "remove_index a i = take (length a - 1) (a[i := a ! (length a - 1)])"

definition removeArtefactById :: "artefact list \<Rightarrow> string \<Rightarrow> artefact list" where
  "removeArtefactById a ident =
     (case first_index (\<lambda>x. Contains (Id' x) ident) a of
        None \<Rightarrow> a
      | Some i \<Rightarrow> remove_index a i)"

definition removeRepoByName :: "repository list \<Rightarrow> ArtieName \<Rightarrow> repository list" where
  "removeRepoByName a name =
     (case first_index (\<lambda>x. Repository x = FullyQualifiedName name) a of
        None \<Rightarrow> a
      | Some i \<Rightarrow> remove_index a i)"

subsection \<open>Tag\<close>

text \<open>
  The record Tag creates in another repository: the fields of the source artefact, with
  the target tag as its only tag.
\<close>

definition retagged :: "artefact \<Rightarrow> string \<Rightarrow> artefact" where
  "retagged sourceArtie tag =
     \<lparr>Id' = Id' sourceArtie, Type = Type sourceArtie, FileRef = FileRef sourceArtie,
      Tags = [tag], Size = Size sourceArtie, Created = Created sourceArtie\<rparr>"

text \<open>
  The loop of lines 319 to 326 over the tags of the target artefact: the range is over
  the tag list as it was when the loop began, and every tag other than the target tag
  appends the target tag.
\<close>

definition tag_each :: "string list \<Rightarrow> string \<Rightarrow> string list" where
  "tag_each tags target = foldl (\<lambda>ts tag. if tag = target then ts else ts @ [target]) tags tags"

text \<open>
  \<^verbatim>\<open>Tag\<close>, here \<open>Tag_op\<close> (\<open>Tag\<close> is the field of the reference), with its branch
  for another repository as \<open>Tag_other\<close>. The source artefact must exist (\<^verbatim>\<open>core.RaiseErr\<close> aborts otherwise). In the same
  repository the source artefact gains the tag unless it has it. For another repository:
  a new repository with one record when \<^verbatim>\<open>findRepository\<close> gives nil; else, when the
  target reference resolves to an artefact, the loop above runs on it and nothing is
  saved; else the first artefact of the target repository with the Id of the source
  gains the tag, and without one a new record is appended.
\<close>

definition Tag_other :: "world \<Rightarrow> artefact \<Rightarrow> ArtieName \<Rightarrow> error + world" where
  "Tag_other w sourceArtie targetName =
     (case findRepository (registry w) targetName of
        None \<Rightarrow>
          Inr (save (w\<lparr>registry := (registry w)\<lparr>Repositories := Repositories (registry w) @
                 [\<lparr>Repository = FullyQualifiedName targetName,
                   Artefacts = [retagged sourceArtie (Tag targetName)]\<rparr>]\<rparr>\<rparr>))
      | Some targetRepository \<Rightarrow>
          (case GetArtefact (registry w) targetName of
             Inl e \<Rightarrow> Inl e
           | Inr (Some targetArtie) \<Rightarrow>
               Inr (w\<lparr>registry := update_artefact (registry w) targetArtie
                      (\<lambda>a. a\<lparr>Tags := tag_each (Tags a) (Tag targetName)\<rparr>)\<rparr>)
           | Inr None \<Rightarrow>
               (case first_index (\<lambda>a. Id' a = Id' sourceArtie)
                       (Artefacts (Repositories (registry w) ! targetRepository)) of
                  Some a \<Rightarrow>
                    Inr (save (w\<lparr>registry := update_artefact (registry w) (targetRepository, a)
                           (\<lambda>a. a\<lparr>Tags := Tags a @ [Tag targetName]\<rparr>)\<rparr>))
                | None \<Rightarrow>
                    Inr (save (w\<lparr>registry := update_repository (registry w) targetRepository
                           (\<lambda>rp. rp\<lparr>Artefacts := Artefacts rp @
                              [retagged sourceArtie (Tag targetName)]\<rparr>)\<rparr>)))))"

definition Tag_op :: "world \<Rightarrow> ArtieName \<Rightarrow> ArtieName \<Rightarrow> error + world" where
  "Tag_op w sourceName targetName =
     (case GetArtefact (registry w) sourceName of
        Inl e \<Rightarrow> Inl e
      | Inr None \<Rightarrow> Inl SourceMissing
      | Inr (Some sourceArtie) \<Rightarrow>
          if IsInTheSameRepositoryAs targetName sourceName then
            if \<not> HasTag (artefact_at (registry w) sourceArtie) (Tag targetName) then
              Inr (save (w\<lparr>registry := update_artefact (registry w) sourceArtie
                     (\<lambda>a. a\<lparr>Tags := Tags a @ [Tag targetName]\<rparr>)\<rparr>))
            else Inr w
          else Tag_other w (artefact_at (registry w) sourceArtie) targetName)"

subsection \<open>Remove\<close>

text \<open>
  \<^verbatim>\<open>removeFiles\<close>: \<^verbatim>\<open>os.Remove\<close> of the zip file and then of the json file of the artefact;
  a file that is not there is fatal.
\<close>

definition regDirZipFilename :: "world \<Rightarrow> string \<Rightarrow> string" where
  "regDirZipFilename w uniqueIdName = RegistryPath w @ ''/'' @ uniqueIdName @ ''.zip''"

definition regDirJsonFilename :: "world \<Rightarrow> string \<Rightarrow> string" where
  "regDirJsonFilename w uniqueIdName = RegistryPath w @ ''/'' @ uniqueIdName @ ''.json''"

definition removeFiles :: "world \<Rightarrow> artefact \<Rightarrow> error + world" where
  "removeFiles w artie =
     (if regDirZipFilename w (FileRef artie) \<notin> files w then Inl IOFailure
      else if regDirJsonFilename w (FileRef artie) \<notin> files w then Inl IOFailure
      else Inr (w\<lparr>files := files w
                    - {regDirZipFilename w (FileRef artie)}
                    - {regDirJsonFilename w (FileRef artie)}\<rparr>))"

text \<open>
  The scan of \<^verbatim>\<open>Remove\<close> (the loop labelled \<^verbatim>\<open>Loop\<close>): some artefact of some repository
  has the Id.
\<close>

definition id_in_use :: "repository list \<Rightarrow> string \<Rightarrow> bool" where
  "id_in_use repos ident = list_ex (\<lambda>repo. list_ex (\<lambda>art. Id' art = ident) (Artefacts repo)) repos"

text \<open>
  The body of the loop of \<^verbatim>\<open>Remove\<close> for one reference. The pointer \<^verbatim>\<open>artie\<close> stays the
  same object while repositories are removed, so its fields are read from the artefact as
  it is after \<^verbatim>\<open>unTag\<close>. (The lines printed for the user are left out.)
\<close>

definition Remove_one :: "world \<Rightarrow> ArtieName \<Rightarrow> error + world" where
  "Remove_one w name =
     (case GetArtefact (registry w) name of
        Inl e \<Rightarrow> Inl e
      | Inr None \<Rightarrow> Inr w
      | Inr (Some artie) \<Rightarrow>
          (case unTag (registry w) name (Tag name) of
             Inl e \<Rightarrow> Inl e
           | Inr r1 \<Rightarrow>
               if length (Tags (artefact_at r1 artie))
                    < length (Tags (artefact_at (registry w) artie)) then
                 if length (Tags (artefact_at r1 artie)) = 0 then
                   (let w2 = w\<lparr>registry := r1\<lparr>Repositories :=
                                removeRepoByName (Repositories r1) name\<rparr>\<rparr>
                    in if \<not> id_in_use (Repositories (registry w2)) (Id' (artefact_at r1 artie))
                       then (case removeFiles w2 (artefact_at r1 artie) of
                               Inl e \<Rightarrow> Inl e
                             | Inr w3 \<Rightarrow> Inr (save w3))
                       else Inr (save w2))
                 else Inr (save (w\<lparr>registry := r1\<rparr>))
               else
                 (case findRepository r1 name of
                    None \<Rightarrow> Inl NilDereference
                  | Some repo \<Rightarrow>
                      (case removeFiles
                              (w\<lparr>registry := update_repository r1 repo
                                   (\<lambda>rp. rp\<lparr>Artefacts :=
                                      removeArtefactById (Artefacts rp) (Name name)\<rparr>)\<rparr>)
                              (artefact_at r1 artie) of
                         Inl e \<Rightarrow> Inl e
                       | Inr w3 \<Rightarrow> Inr (save w3)))))"

fun Remove :: "world \<Rightarrow> ArtieName list \<Rightarrow> error + world" where
  "Remove w [] = Inr w"
| "Remove w (name # names) =
     (case Remove_one w name of Inl e \<Rightarrow> Inl e | Inr w' \<Rightarrow> Remove w' names)"

subsection \<open>The age of an artefact\<close>

text \<open>
  \<^verbatim>\<open>plural\<close> and \<^verbatim>\<open>fmt.Sprintf("%d %s ago", ...)\<close>; \<open>format_d\<close> is the verb \<^verbatim>\<open>%d\<close>, the
  decimal digits of the value behind its sign.
\<close>

definition digit :: "nat \<Rightarrow> char" where
  "digit n = ''0123456789'' ! n"

fun decimal :: "nat \<Rightarrow> string" where
  "decimal n = (if n < 10 then [digit n] else decimal (n div 10) @ [digit (n mod 10)])"

declare decimal.simps [simp del]

definition format_d :: "int \<Rightarrow> string" where
  "format_d v = (if v < 0 then CHR ''-'' # decimal (nat (- v)) else decimal (nat v))"

definition plural :: "int \<Rightarrow> string \<Rightarrow> string" where
  "plural v label = (if v > 1 then label @ ''s'' else label)"

definition ago :: "int \<Rightarrow> string \<Rightarrow> string" where
  "ago v label = format_d v @ '' '' @ plural v label @ '' ago''"

text \<open>
  The type \<^verbatim>\<open>float64\<close>. Its values are rational numbers, and an operation gives the
  exact result rounded to the nearest number with a significand of 53 bits, a tie going
  to the even significand. \<open>exponent x\<close> is the binary exponent of \<open>x \<noteq> 0\<close>: the \<open>e\<close> with
  \<open>2 powi e \<le> \<bar>x\<bar> < 2 powi (e + 1)\<close>; the numbers of the exponent \<open>e\<close> are the multiples of
  \<open>2 powi (e - 52)\<close>. (The exponent of a \<^verbatim>\<open>float64\<close> lies between -1022 and 1023. The
  values that occur here, quotients of a \<^verbatim>\<open>time.Duration\<close>, have exponents between -60 and
  34, so the bounds of the exponent are left out.)
\<close>

definition exponent :: "rat \<Rightarrow> int" where
  "exponent x =
     (case quotient_of \<bar>x\<bar> of
        (p, q) \<Rightarrow>
          if \<bar>x\<bar> < 2 powi (bitlen p - bitlen q) then bitlen p - bitlen q - 1
          else bitlen p - bitlen q)"

definition round_even :: "rat \<Rightarrow> int" where
  "round_even y =
     (if y - of_int \<lfloor>y\<rfloor> < 1 / 2 then \<lfloor>y\<rfloor>
      else if 1 / 2 < y - of_int \<lfloor>y\<rfloor> then \<lfloor>y\<rfloor> + 1
      else if even \<lfloor>y\<rfloor> then \<lfloor>y\<rfloor> else \<lfloor>y\<rfloor> + 1)"

definition float64 :: "rat \<Rightarrow> rat" where
  "float64 x =
     (if x = 0 then 0
      else of_int (round_even (x / 2 powi (exponent x - 52))) * 2 powi (exponent x - 52))"

text \<open>
  The operators \<^verbatim>\<open>/\<close> and \<^verbatim>\<open>%\<close> of Go on integers, for a divisor above zero: the quotient
  is rounded towards zero and the remainder has the sign of the dividend.
\<close>

definition quo :: "int \<Rightarrow> int \<Rightarrow> int" where
  "quo a b = (if a < 0 then - ((- a) div b) else a div b)"

definition rem :: "int \<Rightarrow> int \<Rightarrow> int" where
  "rem a b = a - b * quo a b"

text \<open>
  \<^verbatim>\<open>Duration.Seconds\<close>, \<^verbatim>\<open>Duration.Minutes\<close> and \<^verbatim>\<open>Duration.Hours\<close> of the package \<^verbatim>\<open>time\<close>, on
  the duration in nanoseconds: the whole units and the remaining nanoseconds are
  converted to \<^verbatim>\<open>float64\<close>, the remainder is divided by the length of the unit, and the
  two are added.
\<close>

definition in_units :: "int \<Rightarrow> int \<Rightarrow> rat" where
  "in_units unit d =
     float64 (float64 (of_int (quo d unit))
              + float64 (float64 (of_int (rem d unit)) / float64 (of_int unit)))"

definition Seconds :: "int \<Rightarrow> rat" where
  "Seconds d = in_units 1000000000 d"

definition Minutes :: "int \<Rightarrow> rat" where
  "Minutes d = in_units 60000000000 d"

definition Hours :: "int \<Rightarrow> rat" where
  "Hours d = in_units 3600000000000 d"

text \<open>
  \<^verbatim>\<open>math.Trunc\<close> and the conversion \<^verbatim>\<open>int64(x)\<close>: the integer part, rounded towards zero.
\<close>

definition Trunc :: "rat \<Rightarrow> int" where
  "Trunc x = (if 0 \<le> x then \<lfloor>x\<rfloor> else \<lceil>x\<rceil>)"

text \<open>
  The body of \<^verbatim>\<open>toElapsedLabel\<close> behind \<^verbatim>\<open>time.Since\<close>, on the elapsed time in nanoseconds
  (a \<^verbatim>\<open>time.Duration\<close>). Every quotient is a \<^verbatim>\<open>float64\<close> division.
\<close>

definition elapsedLabel :: "int \<Rightarrow> string" where
  "elapsedLabel elapsed =
     (let seconds = Seconds elapsed;
          minutes = Minutes elapsed;
          hours = Hours elapsed;
          days = float64 (hours / 24);
          weeks = float64 (days / 7);
          months = float64 (weeks / 4);
          years = float64 (months / 12)
      in
      if Trunc years > 0 then ago (Trunc years) ''year''
      else if Trunc months > 0 then ago (Trunc months) ''month''
      else if Trunc weeks > 0 then ago (Trunc weeks) ''week''
      else if Trunc days > 0 then ago (Trunc days) ''day''
      else if Trunc hours > 0 then ago (Trunc hours) ''hour''
      else if Trunc minutes > 0 then ago (Trunc minutes) ''minute''
      else ago (Trunc seconds) ''second'')"

text \<open>
  The label in the words of the specification: the largest unit with a whole count above
  zero, counted exactly from the nanoseconds, where a minute is 60 seconds, an hour 60
  minutes, a day 24 hours, a week 7 days, a month 4 weeks and a year 12 such months.
\<close>

definition whole_unit_label :: "int \<Rightarrow> string" where
  "whole_unit_label d =
     (if d div 29030400000000000 > 0 then ago (d div 29030400000000000) ''year''
      else if d div 2419200000000000 > 0 then ago (d div 2419200000000000) ''month''
      else if d div 604800000000000 > 0 then ago (d div 604800000000000) ''week''
      else if d div 86400000000000 > 0 then ago (d div 86400000000000) ''day''
      else if d div 3600000000000 > 0 then ago (d div 3600000000000) ''hour''
      else if d div 60000000000 > 0 then ago (d div 60000000000) ''minute''
      else ago (d div 1000000000) ''second'')"

text \<open>
  An elapsed time is clear of the boundaries when it does not lie in the last 8192
  nanoseconds before a whole multiple of a unit.
\<close>

definition clear_of_boundaries :: "int \<Rightarrow> bool" where
  "clear_of_boundaries d =
     list_all (\<lambda>unit. d mod unit + 8192 \<le> unit)
       [29030400000000000, 2419200000000000, 604800000000000, 86400000000000,
        3600000000000, 60000000000, 1000000000]"

text \<open>
  The \<^verbatim>\<open>float64\<close> value \<open>v\<close> stands for the exact quotient \<open>q\<close> after \<open>n\<close> roundings: it is not
  below a whole number that \<open>q\<close> reaches, and not above \<open>q\<close> by more than the roundings
  add.
\<close>

definition tracks :: "rat \<Rightarrow> rat \<Rightarrow> nat \<Rightarrow> bool" where
  "tracks v q n =
     ((\<forall>k::int. of_int k \<le> q \<longrightarrow> of_int k \<le> v) \<and> v \<le> q * (1 + 1 / 2 ^ 53) ^ n)"

text \<open>
  \<^verbatim>\<open>toElapsedLabel\<close>. The clock is the argument \<open>since\<close>: the time elapsed since the
  creation time the label denotes (\<^verbatim>\<open>time.Parse\<close> in the format RFC850, then
  \<^verbatim>\<open>time.Since\<close>), and nothing for a label that does not parse, which is fatal.
\<close>

definition toElapsedLabel :: "(string \<Rightarrow> int option) \<Rightarrow> string \<Rightarrow> error + string" where
  "toElapsedLabel since rfc850time =
     (case since rfc850time of
        None \<Rightarrow> Inl BadTime
      | Some elapsed \<Rightarrow> Inr (elapsedLabel elapsed))"

subsection \<open>List\<close>

text \<open>
  The slice expression \<^verbatim>\<open>s[lo:hi]\<close> of Go on a string: a run-time panic unless
  \<^verbatim>\<open>lo <= hi <= len(s)\<close>. The short identifier of the listings is \<^verbatim>\<open>a.Id[7:19]\<close>.
\<close>

definition slice :: "string \<Rightarrow> nat \<Rightarrow> nat \<Rightarrow> error + string" where
  "slice s lo hi =
     (if lo \<le> hi \<and> hi \<le> length s then Inr (take (hi - lo) (drop lo s)) else Inl SliceBounds)"

definition short_id :: "artefact \<Rightarrow> error + string" where
  "short_id a = slice (Id' a) 7 19"

text \<open>A loop that writes one line per entry and stops at the first failure.\<close>

fun each :: "('a \<Rightarrow> error + 'b) \<Rightarrow> 'a list \<Rightarrow> error + 'b list" where
  "each f [] = Inr []"
| "each f (x # xs) =
     (case f x of
        Inl e \<Rightarrow> Inl e
      | Inr y \<Rightarrow> (case each f xs of Inl e \<Rightarrow> Inl e | Inr ys \<Rightarrow> Inr (y # ys)))"

text \<open>
  \<^verbatim>\<open>ListQ\<close>: one line per artefact of every repository, the short identifier. The output
  is the list of the lines written. (Write errors of the standard output are left out.)
\<close>

definition ListQ :: "FileRegistry \<Rightarrow> error + string list" where
  "ListQ r = each short_id (concat (map Artefacts (Repositories r)))"

text \<open>
  \<^verbatim>\<open>List\<close>: the header, then per artefact one row with the tag \<^verbatim>\<open><none>\<close> when it has no
  tags, and one row per tag. A row is the list of its six cells.
\<close>

definition list_row :: "(string \<Rightarrow> int option) \<Rightarrow> repository \<Rightarrow> artefact \<Rightarrow> string \<Rightarrow> error + string list" where
  "list_row since repo a tag =
     (case short_id a of
        Inl e \<Rightarrow> Inl e
      | Inr ident \<Rightarrow>
          (case toElapsedLabel since (Created a) of
             Inl e \<Rightarrow> Inl e
           | Inr age \<Rightarrow> Inr [Repository repo, tag, ident, Type a, age, Size a]))"

definition list_tags :: "artefact \<Rightarrow> string list" where
  "list_tags a = (if length (Tags a) = 0 then [''<none>''] else []) @ Tags a"

definition list_rows :: "(string \<Rightarrow> int option) \<Rightarrow> repository \<Rightarrow> error + string list list" where
  "list_rows since repo =
     each (\<lambda>(a, tag). list_row since repo a tag)
       (concat (map (\<lambda>a. map (\<lambda>tag. (a, tag)) (list_tags a)) (Artefacts repo)))"

definition List :: "(string \<Rightarrow> int option) \<Rightarrow> FileRegistry \<Rightarrow> error + string list list" where
  "List since r =
     (case each (list_rows since) (Repositories r) of
        Inl e \<Rightarrow> Inl e
      | Inr rows \<Rightarrow>
          Inr ([''REPOSITORY'', ''TAG'', ''ARTEFACT ID'', ''ARTEFACT TYPE'', ''CREATED'', ''SIZE'']
               # concat rows))"

text \<open>
  The rows of the listing in the words of the specification: per repository, per
  artefact and per tag (or \<^verbatim>\<open><none>\<close> without tags) the repository, the tag, the twelve
  characters of the Id behind the first seven, the type, the age and the size.
\<close>

definition listed_rows :: "(string \<Rightarrow> int option) \<Rightarrow> FileRegistry \<Rightarrow> string list list" where
  "listed_rows since r =
     concat (map (\<lambda>repo.
       concat (map (\<lambda>a.
         map (\<lambda>tag. [Repository repo, tag, take 12 (drop 7 (Id' a)), Type a,
                     (case since (Created a) of Some elapsed \<Rightarrow> elapsedLabel elapsed | None \<Rightarrow> []),
                     Size a])
           (if Tags a = [] then [''<none>''] else Tags a))
         (Artefacts repo)))
       (Repositories r))"

subsection \<open>The tag invariant\<close>

text \<open>
  Within a repository a tag names at most one artefact: every tag of the repository is
  in the tag list of at most one of its artefacts.
\<close>

definition tag_holders :: "repository \<Rightarrow> string \<Rightarrow> nat list" where
  "tag_holders repo tag =
     filter (\<lambda>j. HasTag (Artefacts repo ! j) tag) [0..<length (Artefacts repo)]"

definition tags_exclusive :: "repository \<Rightarrow> bool" where
  "tags_exclusive repo =
     list_all (\<lambda>tag. length (tag_holders repo tag) \<le> 1) (concat (map Tags (Artefacts repo)))"

definition tag_invariant :: "FileRegistry \<Rightarrow> bool" where
  "tag_invariant r = list_all tags_exclusive (Repositories r)"

subsection \<open>Concrete registries and runs\<close>

text \<open>
  Running commands one after the other, each on the world the one before left; the
  first failure ends the run.
\<close>

datatype command =
    DoAdd filename ArtieName Seal
  | DoTag ArtieName ArtieName
  | DoRemove "ArtieName list"

fun exec :: "world \<Rightarrow> command \<Rightarrow> error + world" where
  "exec w (DoAdd file name s) = Add w file name s"
| "exec w (DoTag sourceName targetName) = Tag_op w sourceName targetName"
| "exec w (DoRemove names) = Remove w names"

fun run :: "world \<Rightarrow> command list \<Rightarrow> error + world" where
  "run w [] = Inr w"
| "run w (c # cs) = (case exec w c of Inl e \<Rightarrow> Inl e | Inr w' \<Rightarrow> run w' cs)"

text \<open>
  A fresh registry (what \<^verbatim>\<open>NewFileRegistry\<close> gives without a document) next to three
  built packages, each a zip file with its seal.
\<close>

definition fresh :: world where
  "fresh =
     \<lparr>registry = \<lparr>Repositories = []\<rparr>,
      document = \<lparr>Repositories = []\<rparr>,
      files = {''build/p1.zip'', ''build/p1.json'', ''build/p2.zip'', ''build/p2.json'',
               ''build/p3.zip'', ''build/p3.json''},
      HomeDir = ''/home/dev''\<rparr>"

definition p1 :: filename where "p1 = \<lparr>Dir = ''build'', Base = ''p1.zip''\<rparr>"
definition p2 :: filename where "p2 = \<lparr>Dir = ''build'', Base = ''p2.zip''\<rparr>"
definition p3 :: filename where "p3 = \<lparr>Dir = ''build'', Base = ''p3.zip''\<rparr>"

definition seal1 :: Seal where
  "seal1 = \<lparr>ArtefactId = ''sha256:1111aaaa2222bbbb3333'', ManifestType = ''jar'',
            ManifestSize = ''1MB'', ManifestTime = ''Monday, 02-Jan-06 15:04:05 UTC''\<rparr>"

definition seal2 :: Seal where
  "seal2 = \<lparr>ArtefactId = ''sha256:4444dddd5555eeee6666'', ManifestType = ''jar'',
            ManifestSize = ''2MB'', ManifestTime = ''Tuesday, 03-Jan-06 15:04:05 UTC''\<rparr>"

definition seal3 :: Seal where
  "seal3 = \<lparr>ArtefactId = ''sha256:9cafe0123456789abcde'', ManifestType = ''jar'',
            ManifestSize = ''3MB'', ManifestTime = ''Wednesday, 04-Jan-06 15:04:05 UTC''\<rparr>"

definition app_v1 :: ArtieName where
  "app_v1 = \<lparr>Name = ''app'', Tag = ''v1'', Qualified = ''localhost/demo/app''\<rparr>"

definition app_v2 :: ArtieName where
  "app_v2 = \<lparr>Name = ''app'', Tag = ''v2'', Qualified = ''localhost/demo/app''\<rparr>"

definition lib_v1 :: ArtieName where
  "lib_v1 = \<lparr>Name = ''lib'', Tag = ''v1'', Qualified = ''localhost/demo/lib''\<rparr>"

definition lib_v2 :: ArtieName where
  "lib_v2 = \<lparr>Name = ''lib'', Tag = ''v2'', Qualified = ''localhost/demo/lib''\<rparr>"

definition cafe_v1 :: ArtieName where
  "cafe_v1 = \<lparr>Name = ''cafe'', Tag = ''v1'', Qualified = ''localhost/demo/cafe''\<rparr>"

definition cafe_latest :: ArtieName where
  "cafe_latest = \<lparr>Name = ''cafe'', Tag = ''latest'', Qualified = ''localhost/demo/cafe''\<rparr>"

text \<open>The artefacts the runs below create, by seal, file and tags.\<close>

definition built :: "Seal \<Rightarrow> string \<Rightarrow> string list \<Rightarrow> artefact" where
  "built s ref tags =
     \<lparr>Id' = ArtefactId s, Type = ManifestType s, FileRef = ref, Tags = tags,
      Size = ManifestSize s, Created = ManifestTime s\<rparr>"

text \<open>
  Two repositories whose artefacts both have \<^verbatim>\<open>abc123\<close> in their Ids, and references by
  Id hint (no repository has their fully-qualified name).
\<close>

definition two_candidates :: FileRegistry where
  "two_candidates =
     \<lparr>Repositories =
        [\<lparr>Repository = ''localhost/demo/app'',
          Artefacts = [\<lparr>Id' = ''sha256:00abc123ffff00001111'', Type = ''jar'', FileRef = ''p1'',
                        Tags = [''v1''], Size = ''1MB'',
                        Created = ''Monday, 02-Jan-06 15:04:05 UTC''\<rparr>]\<rparr>,
         \<lparr>Repository = ''localhost/demo/lib'',
          Artefacts = [\<lparr>Id' = ''sha256:77abc123eeee22223333'', Type = ''jar'', FileRef = ''p2'',
                        Tags = [''v1''], Size = ''2MB'',
                        Created = ''Tuesday, 03-Jan-06 15:04:05 UTC''\<rparr>]\<rparr>]\<rparr>"

definition hint_abc123 :: ArtieName where
  "hint_abc123 = \<lparr>Name = ''abc123'', Tag = ''latest'', Qualified = ''abc123''\<rparr>"

definition hint_77abc :: ArtieName where
  "hint_77abc = \<lparr>Name = ''77abc'', Tag = ''latest'', Qualified = ''77abc''\<rparr>"

definition hint_none :: ArtieName where
  "hint_none = \<lparr>Name = ''5555'', Tag = ''latest'', Qualified = ''5555''\<rparr>"

text \<open>What a registry shows of its tags: per repository its name and, per artefact, Id and tags.\<close>

definition tag_table :: "FileRegistry \<Rightarrow> (string \<times> (string \<times> string list) list) list" where
  "tag_table r =
     map (\<lambda>repo. (Repository repo, map (\<lambda>a. (Id' a, Tags a)) (Artefacts repo))) (Repositories r)"

text \<open>
  What is looked at when a command or a run has ended: the failure, or an observation of
  the world it left. The observations are the tags of the index, the tags of the
  document, the tag invariant of the index, whether the document is the index, and
  whether the zip file and the json file of a package are in the registry directory.
\<close>

fun outcome :: "(world \<Rightarrow> 'a) \<Rightarrow> error + world \<Rightarrow> error + 'a" where
  "outcome f (Inl e) = Inl e"
| "outcome f (Inr w) = Inr (f w)"

definition tags_of :: "world \<Rightarrow> (string \<times> (string \<times> string list) list) list" where
  "tags_of w = tag_table (registry w)"

definition saved_tags_of :: "world \<Rightarrow> (string \<times> (string \<times> string list) list) list" where
  "saved_tags_of w = tag_table (document w)"

definition keeps_invariant :: "world \<Rightarrow> bool" where
  "keeps_invariant w = tag_invariant (registry w)"

definition is_saved :: "world \<Rightarrow> bool" where
  "is_saved w = (document w = registry w)"

definition has_files :: "string \<Rightarrow> world \<Rightarrow> bool \<times> bool" where
  "has_files ref w = (regDirZipFilename w ref \<in> files w, regDirJsonFilename w ref \<in> files w)"

definition app_v3 :: ArtieName where
  "app_v3 = \<lparr>Name = ''app'', Tag = ''v3'', Qualified = ''localhost/demo/app''\<rparr>"

definition hint_1111 :: ArtieName where
  "hint_1111 = \<lparr>Name = ''1111'', Tag = ''latest'', Qualified = ''1111''\<rparr>"

text \<open>
  A registry with one repository and one artefact of two tags, next to a second package.
\<close>

definition one_app :: world where
  "one_app =
     \<lparr>registry = \<lparr>Repositories = [\<lparr>Repository = ''localhost/demo/app'',
                    Artefacts = [built seal1 ''p1'' [''v1'', ''stable'']]\<rparr>]\<rparr>,
      document = \<lparr>Repositories = [\<lparr>Repository = ''localhost/demo/app'',
                    Artefacts = [built seal1 ''p1'' [''v1'', ''stable'']]\<rparr>]\<rparr>,
      files = {''/home/dev/.artie/p1.zip'', ''/home/dev/.artie/p1.json'',
               ''build/p2.zip'', ''build/p2.json''},
      HomeDir = ''/home/dev''\<rparr>"

section \<open>Properties\<close>

subsection \<open>Lookup\<close>

lemma first_index_None: "first_index P xs = None \<longleftrightarrow> (\<forall>x \<in> set xs. \<not> P x)"
  by (induction xs) auto

lemma first_index_Some:
  "first_index P xs = Some i \<longleftrightarrow> (i < length xs \<and> P (xs ! i) \<and> (\<forall>k < i. \<not> P (xs ! k)))"
proof (induction xs arbitrary: i)
  case Nil
  then show ?case by simp
next
  case (Cons x xs)
  show ?case
  proof (cases "P x")
    case True
    then show ?thesis by (cases i) auto
  next
    case False
    show ?thesis
    proof (cases i)
      case 0
      with False show ?thesis by auto
    next
      case (Suc n)
      have "(\<forall>k < Suc n. \<not> P ((x # xs) ! k)) \<longleftrightarrow> (\<forall>k < n. \<not> P (xs ! k))"
        using False by (auto simp: less_Suc_eq_0_disj)
      with False Suc Cons.IH [of n] show ?thesis by auto
    qed
  qed
qed

lemma id_matches_iff:
  "l \<in> set (id_matches i as hint) \<longleftrightarrow>
     (fst l = i \<and> snd l < length as \<and> Contains (Id' (as ! snd l)) hint)"
  by (cases l) (auto simp: id_matches_def)

lemma id_matches_Nil: "id_matches i as hint = [] \<longleftrightarrow> \<not> list_ex (\<lambda>a. Contains (Id' a) hint) as"
  by (auto simp: id_matches_def filter_empty_conv list_ex_iff in_set_conv_nth Ball_def)

lemma all_id_matches_iff:
  "l \<in> set (all_id_matches i repos hint) \<longleftrightarrow>
     (i \<le> fst l \<and> fst l < i + length repos \<and>
      snd l < length (Artefacts (repos ! (fst l - i))) \<and>
      Contains (Id' (Artefacts (repos ! (fst l - i)) ! snd l)) hint)"
proof (induction repos arbitrary: i)
  case Nil
  then show ?case by auto
next
  case (Cons repo rest)
  show ?case
  proof (cases "fst l = i")
    case True
    then show ?thesis by (auto simp: id_matches_iff Cons.IH)
  next
    case False
    then have "i \<le> fst l \<Longrightarrow> fst l - i = Suc (fst l - Suc i)" by arith
    with False show ?thesis by (auto simp: id_matches_iff Cons.IH)
  qed
qed

lemma first_found_append: "first_found (xs @ ys) = (case xs of [] \<Rightarrow> first_found ys | x # _ \<Rightarrow> Some x)"
  by (cases xs) auto

lemma first_index_hint_matches:
  "first_index (holds_id_hint hint) repos =
     map_option (\<lambda>l. fst l - i) (first_found (all_id_matches i repos hint))"
proof (induction repos arbitrary: i)
  case Nil
  then show ?case by simp
next
  case (Cons repo rest)
  show ?case
  proof (cases "id_matches i (Artefacts repo) hint")
    case Nil
    then have "\<not> holds_id_hint hint repo"
      by (simp add: id_matches_Nil holds_id_hint_def)
    moreover have "\<And>l. l \<in> set (all_id_matches (Suc i) rest hint) \<Longrightarrow> Suc (fst l - Suc i) = fst l - i"
      by (auto simp: all_id_matches_iff)
    then have "map_option (\<lambda>l. Suc (fst l - Suc i)) (first_found (all_id_matches (Suc i) rest hint))
        = map_option (\<lambda>l. fst l - i) (first_found (all_id_matches (Suc i) rest hint))"
      by (cases "all_id_matches (Suc i) rest hint") auto
    ultimately show ?thesis
      using Nil Cons.IH [of "Suc i"] by (simp add: option.map_comp comp_def)
  next
    case (Cons l ls)
    then have "l \<in> set (id_matches i (Artefacts repo) hint)" by simp
    then have "fst l = i" and "holds_id_hint hint repo"
      by (auto simp: id_matches_iff holds_id_hint_def list_ex_iff)
    with Cons show ?thesis by simp
  qed
qed

lemma GetArtefact_loop_no_name:
  assumes "\<forall>repo \<in> set repos. Repository repo \<noteq> FullyQualifiedName name"
    and "length found \<le> 1"
  shows "(length (found @ all_id_matches i repos (Name name)) \<le> 1 \<longrightarrow>
            GetArtefact_loop name repos i found =
              Inr (first_found (found @ all_id_matches i repos (Name name)))) \<and>
         (length (found @ all_id_matches i repos (Name name)) > 1 \<longrightarrow>
            (\<exists>n > 1. GetArtefact_loop name repos i found = Inl (Ambiguous n)))"
  using assms
proof (induction repos arbitrary: i found)
  case Nil
  then show ?case by simp
next
  case (Cons repo rest)
  let ?found' = "found @ id_matches i (Artefacts repo) (Name name)"
  have no: "Repository repo \<noteq> FullyQualifiedName name"
    and rest: "\<forall>repo \<in> set rest. Repository repo \<noteq> FullyQualifiedName name"
    using Cons.prems by auto
  show ?case
  proof (cases "length ?found' > 1")
    case True
    with no show ?thesis by auto
  next
    case False
    then have "length ?found' \<le> 1" by simp
    from Cons.IH [OF rest this, of "Suc i"] no False show ?thesis
      by (simp add: Let_def)
  qed
qed

subsection \<open>C6: the fallback of GetArtefact to the Id hint\<close>

text \<open>
  C6. When no repository carries the fully-qualified name of the reference,
  \<^verbatim>\<open>GetArtefact\<close> searches the Ids of all artefacts of all repositories for the bare name
  fragment. The matches are exactly the positions of the artefacts whose Id contains the
  fragment. No match gives nil, exactly one match gives that artefact, and more than one
  gives the ambiguity error (with a count above one), never one of the matches.
\<close>

theorem GetArtefact_fallback_tristate:
  assumes "\<forall>repo \<in> set (Repositories r). Repository repo \<noteq> FullyQualifiedName name"
  shows "(\<forall>l. l \<in> set (all_id_matches 0 (Repositories r) (Name name)) \<longleftrightarrow>
              valid_loc r l \<and> Contains (Id' (artefact_at r l)) (Name name)) \<and>
         (all_id_matches 0 (Repositories r) (Name name) = [] \<longrightarrow>
              GetArtefact r name = Inr None) \<and>
         (\<forall>l. all_id_matches 0 (Repositories r) (Name name) = [l] \<longrightarrow>
              GetArtefact r name = Inr (Some l)) \<and>
         (length (all_id_matches 0 (Repositories r) (Name name)) > 1 \<longrightarrow>
              (\<exists>n > 1. GetArtefact r name = Inl (Ambiguous n)))"
proof -
  note loop = GetArtefact_loop_no_name [OF assms, of "[]" 0, simplified]
  have "\<forall>l. l \<in> set (all_id_matches 0 (Repositories r) (Name name)) \<longleftrightarrow>
              valid_loc r l \<and> Contains (Id' (artefact_at r l)) (Name name)"
    by (auto simp: all_id_matches_iff valid_loc_def artefact_at_def)
  moreover have "all_id_matches 0 (Repositories r) (Name name) = [] \<longrightarrow>
              GetArtefact r name = Inr None"
    using loop by (auto simp: GetArtefact_def)
  moreover have "\<forall>l. all_id_matches 0 (Repositories r) (Name name) = [l] \<longrightarrow>
              GetArtefact r name = Inr (Some l)"
    using loop by (auto simp: GetArtefact_def)
  moreover have "length (all_id_matches 0 (Repositories r) (Name name)) > 1 \<longrightarrow>
              (\<exists>n > 1. GetArtefact r name = Inl (Ambiguous n))"
    using loop by (auto simp: GetArtefact_def)
  ultimately show ?thesis by blast
qed

theorem GetArtefact_fallback_tristate_witness:
  "GetArtefact two_candidates hint_none = Inr None \<and>
   GetArtefact two_candidates hint_77abc = Inr (Some (1, 0)) \<and>
   Id' (artefact_at two_candidates (1, 0)) = ''sha256:77abc123eeee22223333'' \<and>
   (\<exists>n > 1. GetArtefact two_candidates hint_abc123 = Inl (Ambiguous n))"
proof -
  have n0: "\<forall>repo \<in> set (Repositories two_candidates). Repository repo \<noteq> FullyQualifiedName hint_none"
    and n1: "\<forall>repo \<in> set (Repositories two_candidates). Repository repo \<noteq> FullyQualifiedName hint_77abc"
    and n2: "\<forall>repo \<in> set (Repositories two_candidates). Repository repo \<noteq> FullyQualifiedName hint_abc123"
    by code_simp+
  have m0: "all_id_matches 0 (Repositories two_candidates) (Name hint_none) = []"
    and m1: "all_id_matches 0 (Repositories two_candidates) (Name hint_77abc) = [(1, 0)]"
    and m2: "length (all_id_matches 0 (Repositories two_candidates) (Name hint_abc123)) > 1"
    by code_simp+
  have a: "Id' (artefact_at two_candidates (1, 0)) = ''sha256:77abc123eeee22223333''"
    by code_simp
  from GetArtefact_fallback_tristate [OF n0] GetArtefact_fallback_tristate [OF n1]
    GetArtefact_fallback_tristate [OF n2] m0 m1 m2 a
  show ?thesis by blast
qed

subsection \<open>C4: findRepository by Id hint\<close>

text \<open>
  The claim C4 as stated fails: with two repositories that each hold an artefact whose
  Id contains the fragment, and no repository of the fully-qualified name,
  \<^verbatim>\<open>findRepository\<close> returns the first of the two and reports nothing.
\<close>

theorem findRepository_picks_first_candidate:
  "map Repository (Repositories two_candidates) = [''localhost/demo/app'', ''localhost/demo/lib''] \<and>
   FullyQualifiedName hint_abc123 = ''abc123'' \<and>
   all_id_matches 0 (Repositories two_candidates) (Name hint_abc123) = [(0, 0), (1, 0)] \<and>
   findRepository two_candidates hint_abc123 = Some 0"
  by code_simp

text \<open>
  C4 (amended). When no repository carries the fully-qualified name of the reference,
  \<^verbatim>\<open>findRepository\<close> returns the repository of the first artefact, in the order of the
  store, whose Id contains the bare name fragment, however many artefacts match, and nil
  when none matches. It has no error result: an ambiguity is reported by
  \<^verbatim>\<open>GetArtefact\<close> only.
\<close>

theorem findRepository_first_match:
  assumes "\<forall>repo \<in> set (Repositories r). Repository repo \<noteq> FullyQualifiedName name"
  shows "findRepository r name =
           map_option fst (first_found (all_id_matches 0 (Repositories r) (Name name)))"
proof -
  have "first_index (\<lambda>repo. Repository repo = FullyQualifiedName name) (Repositories r) = None"
    using assms by (simp add: first_index_None)
  then show ?thesis
    using first_index_hint_matches [of "Name name" "Repositories r" 0]
    by (simp add: findRepository_def)
qed

theorem findRepository_first_match_witness:
  "findRepository two_candidates hint_abc123 = Some 0 \<and>
   findRepository two_candidates hint_77abc = Some 1 \<and>
   findRepository two_candidates hint_none = None"
proof -
  have n0: "\<forall>repo \<in> set (Repositories two_candidates). Repository repo \<noteq> FullyQualifiedName hint_none"
    and n1: "\<forall>repo \<in> set (Repositories two_candidates). Repository repo \<noteq> FullyQualifiedName hint_77abc"
    and n2: "\<forall>repo \<in> set (Repositories two_candidates). Repository repo \<noteq> FullyQualifiedName hint_abc123"
    by code_simp+
  have m0: "all_id_matches 0 (Repositories two_candidates) (Name hint_none) = []"
    and m1: "all_id_matches 0 (Repositories two_candidates) (Name hint_77abc) = [(1, 0)]"
    and m2: "all_id_matches 0 (Repositories two_candidates) (Name hint_abc123) = [(0, 0), (1, 0)]"
    by code_simp+
  show ?thesis
    using findRepository_first_match [OF n0] findRepository_first_match [OF n1]
      findRepository_first_match [OF n2] m0 m1 m2 by simp
qed

subsection \<open>C10: the removal helpers\<close>

lemma remove_index_butlast: "remove_index a i = butlast (a[i := last a])"
proof (cases "a = []")
  case True
  then show ?thesis by (simp add: remove_index_def)
next
  case False
  then show ?thesis by (simp add: remove_index_def butlast_conv_take last_conv_nth)
qed

lemma length_remove_index: "length (remove_index a i) = length a - 1"
  by (simp add: remove_index_def)

lemma nth_remove_index:
  "k < length a - 1 \<Longrightarrow> remove_index a i ! k = (if k = i then a ! (length a - 1) else a ! k)"
  by (simp add: remove_index_def)

lemma mset_remove_index:
  assumes "i < length a"
  shows "mset (remove_index a i) = mset a - {#a ! i#}"
proof -
  from assms have ne: "a \<noteq> []" by auto
  then obtain b x where a: "a = b @ [x]" by (metis append_butlast_last_id)
  show ?thesis
  proof (cases "i < length b")
    case True
    then have "remove_index a i = b[i := x]"
      by (simp add: remove_index_def a list_update_append1)
    moreover have "mset (b[i := x]) = mset b - {#b ! i#} + {#x#}"
      using True by (simp add: mset_update)
    moreover have "a ! i = b ! i" using True by (simp add: a nth_append)
    moreover have "b ! i \<in># mset b" using True by simp
    ultimately show ?thesis by (simp add: a)
  next
    case False
    with assms have "i = length b" by (simp add: a)
    then show ?thesis by (simp add: remove_index_def a)
  qed
qed

lemma remove_helpers_general:
  "((\<forall>x \<in> set a. \<not> Contains (Id' x) ident) \<longrightarrow> removeArtefactById a ident = a) \<and>
   (\<forall>i. i < length a \<and> Contains (Id' (a ! i)) ident \<and> (\<forall>k < i. \<not> Contains (Id' (a ! k)) ident) \<longrightarrow>
      removeArtefactById a ident = butlast (a[i := last a]) \<and>
      length (removeArtefactById a ident) = length a - 1 \<and>
      mset (removeArtefactById a ident) = mset a - {#a ! i#}) \<and>
   ((\<forall>x \<in> set rs. Repository x \<noteq> FullyQualifiedName name) \<longrightarrow> removeRepoByName rs name = rs) \<and>
   (\<forall>i. i < length rs \<and> Repository (rs ! i) = FullyQualifiedName name \<and>
        (\<forall>k < i. Repository (rs ! k) \<noteq> FullyQualifiedName name) \<longrightarrow>
      removeRepoByName rs name = butlast (rs[i := last rs]) \<and>
      length (removeRepoByName rs name) = length rs - 1 \<and>
      mset (removeRepoByName rs name) = mset rs - {#rs ! i#})"
proof -
  have a0: "(\<forall>x \<in> set a. \<not> Contains (Id' x) ident) \<longrightarrow> removeArtefactById a ident = a"
    by (simp add: removeArtefactById_def first_index_None [symmetric])
  have r0: "(\<forall>x \<in> set rs. Repository x \<noteq> FullyQualifiedName name) \<longrightarrow> removeRepoByName rs name = rs"
    by (simp add: removeRepoByName_def first_index_None [symmetric])
  have a1: "removeArtefactById a ident = butlast (a[i := last a]) \<and>
      length (removeArtefactById a ident) = length a - 1 \<and>
      mset (removeArtefactById a ident) = mset a - {#a ! i#}"
    if "i < length a \<and> Contains (Id' (a ! i)) ident \<and> (\<forall>k < i. \<not> Contains (Id' (a ! k)) ident)" for i
  proof -
    from that have "first_index (\<lambda>x. Contains (Id' x) ident) a = Some i"
      by (simp add: first_index_Some)
    then have "removeArtefactById a ident = remove_index a i"
      by (simp add: removeArtefactById_def)
    with that show ?thesis
      by (simp add: remove_index_butlast [symmetric] length_remove_index mset_remove_index)
  qed
  have r1: "removeRepoByName rs name = butlast (rs[i := last rs]) \<and>
      length (removeRepoByName rs name) = length rs - 1 \<and>
      mset (removeRepoByName rs name) = mset rs - {#rs ! i#}"
    if "i < length rs \<and> Repository (rs ! i) = FullyQualifiedName name \<and>
        (\<forall>k < i. Repository (rs ! k) \<noteq> FullyQualifiedName name)" for i
  proof -
    from that have "first_index (\<lambda>x. Repository x = FullyQualifiedName name) rs = Some i"
      by (simp add: first_index_Some)
    then have "removeRepoByName rs name = remove_index rs i"
      by (simp add: removeRepoByName_def)
    with that show ?thesis
      by (simp add: remove_index_butlast [symmetric] length_remove_index mset_remove_index)
  qed
  from a0 r0 a1 r1 show ?thesis by blast
qed

lemma reorder_run: "outcome tags_of
       (run fresh [DoAdd p1 app_v1 seal1, DoAdd p2 app_v2 seal2, DoAdd p3 app_v3 seal3]) =
     Inr [(''localhost/demo/app'',
           [(''sha256:1111aaaa2222bbbb3333'', [''v1'']),
            (''sha256:4444dddd5555eeee6666'', [''v2'']),
            (''sha256:9cafe0123456789abcde'', [''v3''])])] \<and>
   outcome tags_of
       (run fresh [DoAdd p1 app_v1 seal1, DoAdd p2 app_v2 seal2, DoAdd p3 app_v3 seal3,
                   DoRemove [hint_1111]]) =
     Inr [(''localhost/demo/app'',
           [(''sha256:9cafe0123456789abcde'', [''v3'']),
            (''sha256:4444dddd5555eeee6666'', [''v2''])])] \<and>
   outcome tags_of
       (run fresh [DoAdd p1 app_v1 seal1, DoAdd p2 lib_v1 seal2, DoAdd p3 cafe_v1 seal3,
                   DoRemove [app_v1]]) =
     Inr [(''localhost/demo/cafe'', [(''sha256:9cafe0123456789abcde'', [''v1''])]),
          (''localhost/demo/lib'', [(''sha256:4444dddd5555eeee6666'', [''v1''])])]"
  by code_simp

text \<open>
  C10. \<^verbatim>\<open>removeArtefactById\<close> removes the first artefact whose Id contains the fragment, and
  \<^verbatim>\<open>removeRepoByName\<close> the first repository with the fully-qualified name: the last entry
  of the list moves into the slot of the entry removed and the list loses its last
  position, so one entry goes and the others stay (as a multiset). Without a matching
  entry the list comes back as it is. The order of the entries that remain is not kept:
  Remove by Id hint of the first of three artefacts leaves the third before the second,
  and Remove of the only tag of the first of three repositories leaves the third
  repository before the second.
\<close>

theorem remove_helpers_swap_with_last:
  "((\<forall>x \<in> set a. \<not> Contains (Id' x) ident) \<longrightarrow> removeArtefactById a ident = a) \<and>
   (\<forall>i. i < length a \<and> Contains (Id' (a ! i)) ident \<and> (\<forall>k < i. \<not> Contains (Id' (a ! k)) ident) \<longrightarrow>
      removeArtefactById a ident = butlast (a[i := last a]) \<and>
      length (removeArtefactById a ident) = length a - 1 \<and>
      mset (removeArtefactById a ident) = mset a - {#a ! i#}) \<and>
   ((\<forall>x \<in> set rs. Repository x \<noteq> FullyQualifiedName name) \<longrightarrow> removeRepoByName rs name = rs) \<and>
   (\<forall>i. i < length rs \<and> Repository (rs ! i) = FullyQualifiedName name \<and>
        (\<forall>k < i. Repository (rs ! k) \<noteq> FullyQualifiedName name) \<longrightarrow>
      removeRepoByName rs name = butlast (rs[i := last rs]) \<and>
      length (removeRepoByName rs name) = length rs - 1 \<and>
      mset (removeRepoByName rs name) = mset rs - {#rs ! i#}) \<and>
   outcome tags_of
       (run fresh [DoAdd p1 app_v1 seal1, DoAdd p2 app_v2 seal2, DoAdd p3 app_v3 seal3,
                   DoRemove [hint_1111]]) =
     Inr [(''localhost/demo/app'',
           [(''sha256:9cafe0123456789abcde'', [''v3'']),
            (''sha256:4444dddd5555eeee6666'', [''v2''])])] \<and>
   outcome tags_of
       (run fresh [DoAdd p1 app_v1 seal1, DoAdd p2 lib_v1 seal2, DoAdd p3 cafe_v1 seal3,
                   DoRemove [app_v1]]) =
     Inr [(''localhost/demo/cafe'', [(''sha256:9cafe0123456789abcde'', [''v1''])]),
          (''localhost/demo/lib'', [(''sha256:4444dddd5555eeee6666'', [''v1''])])]"
  using remove_helpers_general [of a ident rs name] reorder_run by blast

theorem remove_helpers_swap_with_last_witness:
  "removeArtefactById
     [built seal1 ''p1'' [''v1''], built seal2 ''p2'' [''v2''], built seal3 ''p3'' [''v3'']] ''1111''
     = [built seal3 ''p3'' [''v3''], built seal2 ''p2'' [''v2'']] \<and>
   removeArtefactById
     [built seal1 ''p1'' [''v1''], built seal2 ''p2'' [''v2''], built seal3 ''p3'' [''v3'']] ''0000''
     = [built seal1 ''p1'' [''v1''], built seal2 ''p2'' [''v2''], built seal3 ''p3'' [''v3'']]"
proof -
  let ?a = "[built seal1 ''p1'' [''v1''], built seal2 ''p2'' [''v2''], built seal3 ''p3'' [''v3'']]"
  have hit: "0 < length ?a \<and> Contains (Id' (?a ! 0)) ''1111'' \<and>
      (\<forall>k < 0. \<not> Contains (Id' (?a ! k)) ''1111'')"
    by (simp add: built_def seal1_def)
  have miss: "\<forall>x \<in> set ?a. \<not> Contains (Id' x) ''0000''"
    by code_simp
  have "removeArtefactById ?a ''1111'' = butlast (?a[0 := last ?a])"
    using remove_helpers_swap_with_last [of ?a "''1111''" "[]" app_v1] hit by blast
  moreover have "removeArtefactById ?a ''0000'' = ?a"
    using remove_helpers_swap_with_last [of ?a "''0000''" "[]" app_v1] miss by blast
  ultimately show ?thesis by simp
qed

subsection \<open>C8: the age label\<close>

lemma powi_two_of_bitlen:
  assumes "0 < n"
  shows "(2::rat) powi (bitlen n - 1) \<le> of_int n" and "of_int n < (2::rat) powi bitlen n"
proof -
  from assms have b: "1 \<le> bitlen n"
    using bitlen_eq_zero_iff [of n] bitlen_nonneg [of n] by linarith
  from bitlen_bounds [OF assms]
  have "2 ^ nat (bitlen n - 1) \<le> n" and "n < 2 ^ nat (bitlen n)" by simp_all
  then have "(of_int (2 ^ nat (bitlen n - 1)) :: rat) \<le> of_int n"
    and "(of_int n :: rat) < of_int (2 ^ nat (bitlen n))"
    by (simp_all only: of_int_le_iff of_int_less_iff)
  with b show "(2::rat) powi (bitlen n - 1) \<le> of_int n" and "of_int n < (2::rat) powi bitlen n"
    by (simp_all add: power_int_def)
qed

lemma exponent_bounds:
  assumes "x \<noteq> 0"
  shows "2 powi exponent x \<le> \<bar>x\<bar> \<and> \<bar>x\<bar> < 2 powi (exponent x + 1)"
proof -
  obtain p q where pq: "quotient_of \<bar>x\<bar> = (p, q)" by (cases "quotient_of \<bar>x\<bar>")
  then have q: "0 < q" by (rule quotient_of_denom_pos)
  have x: "\<bar>x\<bar> = of_int p / of_int q" using pq by (rule quotient_of_div)
  have "0 < \<bar>x\<bar>" using assms by simp
  with x q have p: "0 < p" by (simp add: zero_less_divide_iff)
  let ?a = "bitlen p" and ?b = "bitlen q"
  note P = powi_two_of_bitlen [OF p] and Q = powi_two_of_bitlen [OF q]
  have pos: "\<And>n. 0 < (2::rat) powi n" by simp
  have "(2::rat) powi (?a - ?b - 1) = 2 powi (?a - 1) / 2 powi ?b"
    by (simp add: power_int_diff)
  also have "\<dots> \<le> of_int p / 2 powi ?b"
    using P(1) pos by (simp add: divide_right_mono)
  also have "\<dots> < of_int p / of_int q"
    using Q(2) p q by (simp add: divide_strict_left_mono)
  finally have lower: "(2::rat) powi (?a - ?b - 1) < \<bar>x\<bar>" by (simp add: x)
  have "\<bar>x\<bar> = of_int p / of_int q" by (fact x)
  also have "\<dots> < 2 powi ?a / of_int q"
    using P(2) q by (simp add: divide_strict_right_mono)
  also have "\<dots> \<le> 2 powi ?a / 2 powi (?b - 1)"
    using Q(1) q pos by (simp add: divide_left_mono)
  also have "\<dots> = 2 powi (?a - ?b + 1)"
    by (simp add: power_int_diff [symmetric] algebra_simps)
  finally have upper: "\<bar>x\<bar> < 2 powi (?a - ?b + 1)" .
  show ?thesis
  proof (cases "\<bar>x\<bar> < 2 powi (?a - ?b)")
    case True
    then have "exponent x = ?a - ?b - 1" by (simp add: exponent_def pq)
    with True lower show ?thesis by simp
  next
    case False
    then have "exponent x = ?a - ?b" by (simp add: exponent_def pq)
    with False upper show ?thesis by simp
  qed
qed

lemma round_even_error: "\<bar>of_int (round_even y) - y\<bar> \<le> 1 / 2"
proof -
  have "of_int \<lfloor>y\<rfloor> \<le> y" and "y < of_int \<lfloor>y\<rfloor> + 1" by linarith+
  then show ?thesis by (auto simp: round_even_def)
qed

lemma round_even_of_int [simp]: "round_even (of_int k) = k"
  by (simp add: round_even_def)

lemma round_even_ge: "of_int k \<le> y \<Longrightarrow> k \<le> round_even y"
proof -
  assume "of_int k \<le> y"
  then have "k \<le> \<lfloor>y\<rfloor>" by (simp add: le_floor_iff)
  then show ?thesis by (auto simp: round_even_def)
qed

lemma round_even_le: "y \<le> of_int k \<Longrightarrow> round_even y \<le> k"
proof -
  assume y: "y \<le> of_int k"
  show ?thesis
  proof (cases "y = of_int k")
    case True
    then show ?thesis by simp
  next
    case False
    with y have "y < of_int k" by simp
    then have "\<lfloor>y\<rfloor> < k" by (simp add: floor_less_iff)
    then show ?thesis by (auto simp: round_even_def)
  qed
qed

lemma float64_nonneg: "0 \<le> x \<Longrightarrow> 0 \<le> float64 x"
proof -
  assume x: "0 \<le> x"
  have "0 \<le> round_even (x / 2 powi (exponent x - 52))"
    using x by (intro round_even_ge) simp
  then show ?thesis by (simp add: float64_def)
qed

lemma float64_upper:
  assumes "0 \<le> x"
  shows "float64 x \<le> x * (1 + 1 / 2 ^ 53)"
proof (cases "x = 0")
  case True
  then show ?thesis by (simp add: float64_def)
next
  case False
  let ?e = "exponent x"
  let ?u = "(2::rat) powi (?e - 52)"
  have u: "0 < ?u" by simp
  from exponent_bounds [OF False] assms have e: "2 powi ?e \<le> x" by simp
  have "of_int (round_even (x / ?u)) \<le> x / ?u + 1 / 2"
    using round_even_error [of "x / ?u"] by linarith
  then have "of_int (round_even (x / ?u)) * ?u \<le> (x / ?u + 1 / 2) * ?u"
    using u by (simp only: mult_right_mono less_imp_le)
  also have "\<dots> = x + ?u / 2" using u by (simp add: field_simps)
  also have "?u / 2 = 2 powi ?e / 2 ^ 53"
    by (simp add: power_int_diff)
  also have "x + 2 powi ?e / 2 ^ 53 \<le> x + x / 2 ^ 53"
    using e by (simp add: divide_right_mono)
  finally have "of_int (round_even (x / ?u)) * ?u \<le> x + x / 2 ^ 53" .
  with False show ?thesis by (simp add: float64_def algebra_simps)
qed

lemma exponent_le_52:
  assumes "0 < x" and "x < 2 ^ 53"
  shows "exponent x \<le> 52"
proof -
  from assms have "x \<noteq> 0" by simp
  from exponent_bounds [OF this] assms have "(2::rat) powi exponent x < 2 powi 53"
    by simp
  then have "exponent x < 53"
    by (intro power_int_le_imp_less_exp [of "2::rat"]) simp_all
  then show ?thesis by simp
qed

lemma float64_grid:
  assumes "0 < x" and "x < 2 ^ 53"
  shows "float64 x =
    of_int (round_even (x * 2 ^ nat (52 - exponent x))) / 2 ^ nat (52 - exponent x)"
proof -
  from exponent_le_52 [OF assms] have "0 \<le> 52 - exponent x" by simp
  then have "(2::rat) powi (exponent x - 52) = 1 / 2 ^ nat (52 - exponent x)"
    using power_int_minus_divide [of "2::rat" "52 - exponent x"]
    by (simp add: power_int_nonneg_exp)
  with assms show ?thesis by (simp add: float64_def)
qed

lemma float64_ge_int:
  assumes "0 \<le> x" and "x < 2 ^ 53" and "of_int k \<le> x"
  shows "of_int k \<le> float64 x"
proof (cases "x = 0")
  case True
  with assms show ?thesis by (simp add: float64_def)
next
  case False
  with assms have x: "0 < x" by simp
  let ?m = "(2::rat) ^ nat (52 - exponent x)"
  have m: "0 < ?m" by simp
  have "of_int (k * 2 ^ nat (52 - exponent x)) \<le> x * ?m"
    using assms(3) m by (simp add: mult_right_mono)
  then have "k * 2 ^ nat (52 - exponent x) \<le> round_even (x * ?m)"
    by (rule round_even_ge)
  then have "(of_int (k * 2 ^ nat (52 - exponent x)) :: rat) \<le> of_int (round_even (x * ?m))"
    by (simp only: of_int_le_iff)
  then have "of_int k * ?m \<le> of_int (round_even (x * ?m))" by simp
  then have "of_int k \<le> of_int (round_even (x * ?m)) / ?m"
    using m by (simp add: pos_le_divide_eq)
  then show ?thesis by (simp add: float64_grid [OF x assms(2)])
qed

lemma float64_le_int:
  assumes "0 \<le> x" and "x < 2 ^ 53" and "x \<le> of_int k"
  shows "float64 x \<le> of_int k"
proof (cases "x = 0")
  case True
  with assms show ?thesis by (simp add: float64_def)
next
  case False
  with assms have x: "0 < x" by simp
  let ?m = "(2::rat) ^ nat (52 - exponent x)"
  have m: "0 < ?m" by simp
  have "x * ?m \<le> of_int (k * 2 ^ nat (52 - exponent x))"
    using assms(3) m by (simp add: mult_right_mono)
  then have "round_even (x * ?m) \<le> k * 2 ^ nat (52 - exponent x)"
    by (rule round_even_le)
  then have "(of_int (round_even (x * ?m)) :: rat) \<le> of_int (k * 2 ^ nat (52 - exponent x))"
    by (simp only: of_int_le_iff)
  then have "of_int (round_even (x * ?m)) \<le> of_int k * ?m" by simp
  then have "of_int (round_even (x * ?m)) / ?m \<le> of_int k"
    using m by (simp add: pos_divide_le_eq)
  then show ?thesis by (simp add: float64_grid [OF x assms(2)])
qed

lemma float64_of_int:
  assumes "0 \<le> k" and "k < 2 ^ 53"
  shows "float64 (of_int k) = of_int k"
proof -
  have "(of_int k :: rat) < 2 ^ 53"
    using assms(2) of_int_less_iff [of k "2 ^ 53", where ?'a = rat] by simp
  with assms(1) float64_ge_int [of "of_int k" k] float64_le_int [of "of_int k" k]
  show ?thesis by simp
qed

lemma rounding_factor: "((1::rat) + 1 / 2 ^ 53) ^ 6 \<le> 1 + 1 / 2 ^ 50"
  by code_simp

lemma rounding_factor_le:
  assumes "n \<le> 6"
  shows "((1::rat) + 1 / 2 ^ 53) ^ n \<le> 1 + 1 / 2 ^ 50"
proof -
  have "((1::rat) + 1 / 2 ^ 53) ^ n \<le> (1 + 1 / 2 ^ 53) ^ 6"
    using assms by (intro power_increasing) simp_all
  then show ?thesis by (rule order_trans [OF _ rounding_factor])
qed

lemma tracks_nonneg: "tracks v q n \<Longrightarrow> 0 \<le> q \<Longrightarrow> 0 \<le> v"
  unfolding tracks_def by (metis of_int_0)

lemma tracks_divide:
  assumes t: "tracks v q n" and q: "0 \<le> q" and small: "q * (1 + 1 / 2 ^ 53) ^ n < 2 ^ 53"
    and c: "0 < c"
  shows "tracks (float64 (v / of_int c)) (q / of_int c) (Suc n)"
proof -
  have c1: "(1::rat) \<le> of_int c" using c by simp
  have cpos: "(0::rat) < of_int c" using c by simp
  from tracks_nonneg [OF t q] have v: "0 \<le> v" .
  then have vc: "0 \<le> v / of_int c" using cpos by simp
  from t have upper: "v \<le> q * (1 + 1 / 2 ^ 53) ^ n" by (simp add: tracks_def)
  have "v / of_int c \<le> v / 1" using v c1 by (intro divide_left_mono) simp_all
  then have "v / of_int c \<le> v" by simp
  with upper small have vsmall: "v / of_int c < 2 ^ 53" by linarith
  have lower: "of_int k \<le> float64 (v / of_int c)" if "of_int k \<le> q / of_int c" for k
  proof -
    from that cpos have "of_int (k * c) \<le> q" by (simp add: pos_le_divide_eq)
    with t have "of_int (k * c) \<le> v" by (simp only: tracks_def)
    then have "of_int k \<le> v / of_int c" using cpos by (simp add: pos_le_divide_eq)
    from float64_ge_int [OF vc vsmall this] show ?thesis .
  qed
  have "float64 (v / of_int c) \<le> v / of_int c * (1 + 1 / 2 ^ 53)"
    by (rule float64_upper [OF vc])
  also have "\<dots> \<le> q * (1 + 1 / 2 ^ 53) ^ n / of_int c * (1 + 1 / 2 ^ 53)"
    using upper cpos by (simp add: divide_right_mono)
  also have "\<dots> = q / of_int c * (1 + 1 / 2 ^ 53) ^ Suc n" by simp
  finally show ?thesis using lower by (simp add: tracks_def)
qed

lemma tracks_Trunc:
  assumes t: "tracks v (of_int d / of_int U) n" and n: "n \<le> 6"
    and d: "0 \<le> d" "d < 2 ^ 63" and U: "0 < U" and clear: "d mod U + 8192 \<le> U"
  shows "Trunc v = d div U"
proof -
  let ?q = "(of_int d / of_int U) :: rat"
  have Upos: "(0::rat) < of_int U" using U by simp
  have q: "0 \<le> ?q" using d U by simp
  from tracks_nonneg [OF t q] have v: "0 \<le> v" .
  have "of_int (d div U) \<le> ?q"
    using floor_divide_of_int_eq [of d U, where ?'a = rat] of_int_floor_le [of ?q] by simp
  with t have lower: "of_int (d div U) \<le> v" by (simp only: tracks_def)
  have dd: "d = U * (d div U) + d mod U" by simp
  have "(of_int d :: rat) = of_int U * of_int (d div U) + of_int (d mod U)"
    by (subst dd) (simp only: of_int_add of_int_mult)
  then have split: "?q = of_int (d div U) + of_int (d mod U) / of_int U"
    using Upos by (simp add: field_simps)
  have "(of_int (d mod U) :: rat) + 8192 \<le> of_int U"
    using clear of_int_le_iff [of "d mod U + 8192" U, where ?'a = rat] by simp
  then have "of_int (d mod U) / of_int U \<le> (1::rat) - 8192 / of_int U"
    using Upos by (simp add: field_simps)
  with split have room: "?q \<le> of_int (d div U) + 1 - 8192 / of_int U" by simp
  have "(of_int d :: rat) < 2 ^ 63"
    using d(2) of_int_less_iff [of d "2 ^ 63", where ?'a = rat] by simp
  then have "?q / 2 ^ 50 < 8192 / of_int U"
    using Upos by (simp add: field_simps)
  with room have "?q * (1 + 1 / 2 ^ 50) < of_int (d div U) + 1"
    by (simp add: algebra_simps)
  moreover have "v \<le> ?q * (1 + 1 / 2 ^ 50)"
  proof -
    from t have "v \<le> ?q * (1 + 1 / 2 ^ 53) ^ n" by (simp add: tracks_def)
    also have "\<dots> \<le> ?q * (1 + 1 / 2 ^ 50)"
      using rounding_factor_le [OF n] q by (rule mult_left_mono)
    finally show ?thesis .
  qed
  ultimately have "v < of_int (d div U) + 1" by linarith
  with lower have "\<lfloor>v\<rfloor> = d div U" by (intro floor_unique) simp_all
  with v show ?thesis by (simp add: Trunc_def)
qed

lemma tracks_in_units:
  assumes d: "0 \<le> d" and U: "0 < U" "U < 2 ^ 53" and few: "d div U < 2 ^ 52"
  shows "tracks (in_units U d) (of_int d / of_int U) 2"
proof -
  let ?h = "d div U" and ?r = "d mod U"
  let ?a = "(of_int ?r / of_int U) :: rat"
  have Upos: "(0::rat) < of_int U" using U by simp
  have h: "0 \<le> ?h" using d U by (simp add: pos_imp_zdiv_nonneg_iff)
  have r: "0 \<le> ?r" "?r < U" using U by simp_all
  have quo: "quo d U = ?h" and rem: "rem d U = ?r"
    using d by (simp_all add: quo_def rem_def minus_mult_div_eq_mod)
  have fh: "float64 (of_int ?h) = of_int ?h"
    using h few by (intro float64_of_int) simp_all
  have "?r < 2 ^ 53" using r(2) U(2) by linarith
  with r(1) have fr: "float64 (of_int ?r) = of_int ?r"
    by (intro float64_of_int)
  have fU: "float64 (of_int U) = of_int U"
    using U by (intro float64_of_int) simp_all
  have a: "0 \<le> ?a" "?a < 1" using r Upos by simp_all
  let ?fa = "float64 ?a"
  have fa0: "0 \<le> ?fa" using a(1) by (rule float64_nonneg)
  have fa1: "?fa \<le> ?a * (1 + 1 / 2 ^ 53)" using a(1) by (rule float64_upper)
  let ?s = "of_int ?h + ?fa"
  have s0: "0 \<le> ?s" using h fa0 by simp
  have hr: "(of_int ?h :: rat) < 2 ^ 52"
    using few of_int_less_iff [of ?h "2 ^ 52", where ?'a = rat] by simp
  have "?a * (1 + 1 / 2 ^ 53) \<le> 1 * (1 + 1 / 2 ^ 53)"
    using a(2) by (intro mult_right_mono) simp_all
  with fa1 have "?fa \<le> 2" by simp
  with hr have s53: "?s < 2 ^ 53" by simp
  have val: "in_units U d = float64 ?s"
    by (simp add: in_units_def quo rem fh fr fU)
  have q: "(of_int d / of_int U :: rat) = of_int ?h + ?a"
  proof -
    have "d = U * ?h + ?r" by simp
    then have "(of_int d :: rat) = of_int U * of_int ?h + of_int ?r"
      by (metis of_int_add of_int_mult)
    then show ?thesis using Upos by (simp add: field_simps)
  qed
  have lower: "of_int k \<le> float64 ?s" if "of_int k \<le> (of_int d / of_int U :: rat)" for k
  proof -
    from that have "k \<le> \<lfloor>(of_int d / of_int U :: rat)\<rfloor>" by (simp add: le_floor_iff)
    then have "k \<le> ?h" by (simp add: floor_divide_of_int_eq)
    then have "(of_int k :: rat) \<le> of_int ?h" by simp
    with fa0 have "of_int k \<le> ?s" by linarith
    from float64_ge_int [OF s0 s53 this] show ?thesis .
  qed
  have "float64 ?s \<le> ?s * (1 + 1 / 2 ^ 53)" using s0 by (rule float64_upper)
  also have "?s \<le> (of_int ?h + ?a) * (1 + 1 / 2 ^ 53)"
  proof -
    have "(of_int ?h :: rat) * 1 \<le> of_int ?h * (1 + 1 / 2 ^ 53)"
      using h by (intro mult_left_mono) simp_all
    moreover have "(of_int ?h + ?a) * (1 + 1 / 2 ^ 53)
        = of_int ?h * (1 + 1 / 2 ^ 53) + ?a * (1 + 1 / 2 ^ 53)"
      by (rule distrib_right)
    ultimately show ?thesis using fa1 by linarith
  qed
  finally have "float64 ?s \<le> (of_int ?h + ?a) * (1 + 1 / 2 ^ 53) * (1 + 1 / 2 ^ 53)"
    by (simp add: mult_right_mono)
  then have "float64 ?s \<le> (of_int d / of_int U) * (1 + 1 / 2 ^ 53) ^ 2"
    by (simp add: q power2_eq_square mult.assoc)
  with lower val show ?thesis by (simp add: tracks_def)
qed

lemma tracks_small:
  fixes q :: rat
  assumes "0 \<le> q" and "q < 2 ^ 52" and "n \<le> 6"
  shows "q * (1 + 1 / 2 ^ 53) ^ n < 2 ^ 53"
proof -
  have "q * (1 + 1 / 2 ^ 53) ^ n \<le> q * (1 + 1 / 2 ^ 50)"
    using rounding_factor_le [OF assms(3)] assms(1) by (rule mult_left_mono)
  also have "\<dots> \<le> q * 2" using assms(1) by (intro mult_left_mono) simp_all
  also have "\<dots> < 2 ^ 53" using assms(2) by simp
  finally show ?thesis .
qed

lemma Trunc_units:
  assumes d: "0 \<le> d" "d < 2 ^ 63" and clear: "clear_of_boundaries d"
  shows "Trunc (Seconds d) = d div 1000000000"
    and "Trunc (Minutes d) = d div 60000000000"
    and "Trunc (Hours d) = d div 3600000000000"
    and "Trunc (float64 (Hours d / 24)) = d div 86400000000000"
    and "Trunc (float64 (float64 (Hours d / 24) / 7)) = d div 604800000000000"
    and "Trunc (float64 (float64 (float64 (Hours d / 24) / 7) / 4)) = d div 2419200000000000"
    and "Trunc (float64 (float64 (float64 (float64 (Hours d / 24) / 7) / 4) / 12))
           = d div 29030400000000000"
proof -
  have dr: "(of_int d :: rat) < 2 ^ 63"
    using d(2) of_int_less_iff [of d "2 ^ 63", where ?'a = rat] by simp
  have d0: "(0::rat) \<le> of_int d" using d(1) by simp
  from clear have c: "d mod 29030400000000000 + 8192 \<le> 29030400000000000"
    "d mod 2419200000000000 + 8192 \<le> 2419200000000000"
    "d mod 604800000000000 + 8192 \<le> 604800000000000"
    "d mod 86400000000000 + 8192 \<le> 86400000000000"
    "d mod 3600000000000 + 8192 \<le> 3600000000000"
    "d mod 60000000000 + 8192 \<le> 60000000000"
    "d mod 1000000000 + 8192 \<le> 1000000000"
    by (simp_all add: clear_of_boundaries_def)
  have few: "d div 1000000000 < 2 ^ 52" "d div 60000000000 < 2 ^ 52"
    "d div 3600000000000 < 2 ^ 52"
    using d by simp_all
  have tS: "tracks (Seconds d) (of_int d / of_int 1000000000) 2"
    unfolding Seconds_def using d(1) few(1) by (intro tracks_in_units) simp_all
  have tMi: "tracks (Minutes d) (of_int d / of_int 60000000000) 2"
    unfolding Minutes_def using d(1) few(2) by (intro tracks_in_units) simp_all
  have tH: "tracks (Hours d) (of_int d / of_int 3600000000000) 2"
    unfolding Hours_def using d(1) few(3) by (intro tracks_in_units) simp_all
  have qH: "(0::rat) \<le> of_int d / of_int 3600000000000"
    "(of_int d :: rat) / of_int 3600000000000 < 2 ^ 52"
    using d0 dr by simp_all
  have tD: "tracks (float64 (Hours d / 24)) (of_int d / of_int 86400000000000) 3"
    using tracks_divide [OF tH qH(1) tracks_small [OF qH], of 24]
    by (simp add: numeral_3_eq_3)
  have qD: "(0::rat) \<le> of_int d / of_int 86400000000000"
    "(of_int d :: rat) / of_int 86400000000000 < 2 ^ 52"
    using d0 dr by simp_all
  have tW: "tracks (float64 (float64 (Hours d / 24) / 7)) (of_int d / of_int 604800000000000) 4"
    using tracks_divide [OF tD qD(1) tracks_small [OF qD], of 7]
    by (simp add: eval_nat_numeral)
  have qW: "(0::rat) \<le> of_int d / of_int 604800000000000"
    "(of_int d :: rat) / of_int 604800000000000 < 2 ^ 52"
    using d0 dr by simp_all
  have tMo: "tracks (float64 (float64 (float64 (Hours d / 24) / 7) / 4))
      (of_int d / of_int 2419200000000000) 5"
    using tracks_divide [OF tW qW(1) tracks_small [OF qW], of 4]
    by (simp add: eval_nat_numeral)
  have qMo: "(0::rat) \<le> of_int d / of_int 2419200000000000"
    "(of_int d :: rat) / of_int 2419200000000000 < 2 ^ 52"
    using d0 dr by simp_all
  have tY: "tracks (float64 (float64 (float64 (float64 (Hours d / 24) / 7) / 4) / 12))
      (of_int d / of_int 29030400000000000) 6"
    using tracks_divide [OF tMo qMo(1) tracks_small [OF qMo], of 12]
    by (simp add: eval_nat_numeral)
  show "Trunc (Seconds d) = d div 1000000000"
    using tracks_Trunc [OF tS _ d _ c(7)] by simp
  show "Trunc (Minutes d) = d div 60000000000"
    using tracks_Trunc [OF tMi _ d _ c(6)] by simp
  show "Trunc (Hours d) = d div 3600000000000"
    using tracks_Trunc [OF tH _ d _ c(5)] by simp
  show "Trunc (float64 (Hours d / 24)) = d div 86400000000000"
    using tracks_Trunc [OF tD _ d _ c(4)] by simp
  show "Trunc (float64 (float64 (Hours d / 24) / 7)) = d div 604800000000000"
    using tracks_Trunc [OF tW _ d _ c(3)] by simp
  show "Trunc (float64 (float64 (float64 (Hours d / 24) / 7) / 4)) = d div 2419200000000000"
    using tracks_Trunc [OF tMo _ d _ c(2)] by simp
  show "Trunc (float64 (float64 (float64 (float64 (Hours d / 24) / 7) / 4) / 12))
           = d div 29030400000000000"
    using tracks_Trunc [OF tY _ d _ c(1)] by simp
qed

lemma whole_seconds_clear:
  assumes "1000000000 dvd d"
  shows "clear_of_boundaries d"
proof -
  from assms obtain s where s: "d = 1000000000 * s" by (auto simp: dvd_def)
  have m: "1000000000 * s mod (1000000000 * m) + 8192 \<le> 1000000000 * m" if "0 < m" for m :: int
  proof -
    have "1000000000 * s mod (1000000000 * m) = 1000000000 * (s mod m)"
      by (rule mult_mod_right [symmetric])
    moreover have "s mod m \<le> m - 1" using that pos_mod_bound [of m s] by linarith
    ultimately show ?thesis by linarith
  qed
  have c1: "d mod 29030400000000000 + 8192 \<le> 29030400000000000"
    using m [of 29030400] by (simp add: s)
  have c2: "d mod 2419200000000000 + 8192 \<le> 2419200000000000"
    using m [of 2419200] by (simp add: s)
  have c3: "d mod 604800000000000 + 8192 \<le> 604800000000000"
    using m [of 604800] by (simp add: s)
  have c4: "d mod 86400000000000 + 8192 \<le> 86400000000000"
    using m [of 86400] by (simp add: s)
  have c5: "d mod 3600000000000 + 8192 \<le> 3600000000000"
    using m [of 3600] by (simp add: s)
  have c6: "d mod 60000000000 + 8192 \<le> 60000000000"
    using m [of 60] by (simp add: s)
  have c7: "d mod 1000000000 + 8192 \<le> 1000000000"
    using m [of 1] by (simp add: s)
  show ?thesis
    unfolding clear_of_boundaries_def
    by (simp only: list.pred_inject c1 c2 c3 c4 c5 c6 c7 simp_thms)
qed

lemma elapsedLabel_clear:
  assumes "0 \<le> d" "d < 2 ^ 63" "clear_of_boundaries d"
  shows "elapsedLabel d = whole_unit_label d"
  unfolding elapsedLabel_def whole_unit_label_def Let_def
  by (simp only: Trunc_units [OF assms])

lemma elapsedLabel_whole_seconds:
  assumes "0 \<le> d" "d < 2 ^ 63" "1000000000 dvd d"
  shows "elapsedLabel d = whole_unit_label d"
  using assms by (intro elapsedLabel_clear whole_seconds_clear)

lemma elapsedLabel_examples:
  "elapsedLabel (400 * 86400000000000) = ''1 year ago''"
  "elapsedLabel (10 * 86400000000000) = ''1 week ago''"
  "elapsedLabel (1 * 86400000000000) = ''1 day ago''"
  "elapsedLabel 90000000000 = ''1 minute ago''"
proof -
  have "whole_unit_label (400 * 86400000000000) = ''1 year ago''"
    "whole_unit_label (10 * 86400000000000) = ''1 week ago''"
    "whole_unit_label (1 * 86400000000000) = ''1 day ago''"
    "whole_unit_label 90000000000 = ''1 minute ago''"
    by code_simp+
  moreover have "elapsedLabel (400 * 86400000000000) = whole_unit_label (400 * 86400000000000)"
    by (rule elapsedLabel_whole_seconds) simp_all
  moreover have "elapsedLabel (10 * 86400000000000) = whole_unit_label (10 * 86400000000000)"
    by (rule elapsedLabel_whole_seconds) simp_all
  moreover have "elapsedLabel (1 * 86400000000000) = whole_unit_label (1 * 86400000000000)"
    by (rule elapsedLabel_whole_seconds) simp_all
  moreover have "elapsedLabel 90000000000 = whole_unit_label 90000000000"
    by (rule elapsedLabel_whole_seconds) simp_all
  ultimately show "elapsedLabel (400 * 86400000000000) = ''1 year ago''"
    "elapsedLabel (10 * 86400000000000) = ''1 week ago''"
    "elapsedLabel (1 * 86400000000000) = ''1 day ago''"
    "elapsedLabel 90000000000 = ''1 minute ago''"
    by simp_all
qed

text \<open>
  The claim C8 as stated fails. Ten days are more than a week, so the label is the week
  and not ``10 days ago''. And the quotients are \<^verbatim>\<open>float64\<close> divisions: one nanosecond
  before twelve months of four weeks are over, \<^verbatim>\<open>Duration.Hours\<close> is rounded to 8064
  hours, and the label is the year although the whole count of years is still zero.
\<close>

theorem ten_days_is_one_week:
  "elapsedLabel (10 * 86400000000000) = ''1 week ago'' \<and> ''1 week ago'' \<noteq> ''10 days ago'' \<and>
   whole_unit_label 29030399999999999 = ''11 months ago'' \<and>
   elapsedLabel 29030399999999999 = ''1 year ago''"
proof -
  have "whole_unit_label 29030399999999999 = ''11 months ago''" by code_simp
  moreover have "elapsedLabel 29030399999999999 = ''1 year ago''" by code_simp
  ultimately show ?thesis using elapsedLabel_examples(2) by simp
qed

text \<open>
  C8 (amended). For an elapsed time from zero up to the largest \<^verbatim>\<open>time.Duration\<close> that
  is clear of the boundaries, and so for every whole number of seconds, the label names
  the largest unit with a whole count above zero among year, month, week, day, hour,
  minute and second, where a week is 7 days, a month 4 weeks and a year 12 such months;
  the unit is in the plural exactly when the count exceeds one. 400 days give
  ``1 year ago'', 10 days give ``1 week ago'', and one day gives ``1 day ago''.
  (Within the last nanoseconds before a multiple of a unit the rounding of \<^verbatim>\<open>float64\<close>
  can give the label of the multiple, as in the counterexample.)
\<close>

theorem elapsedLabel_largest_unit:
  "(0 \<le> d \<and> d < 2 ^ 63 \<and> clear_of_boundaries d \<longrightarrow> elapsedLabel d = whole_unit_label d) \<and>
   (0 \<le> d \<and> d < 2 ^ 63 \<and> 1000000000 dvd d \<longrightarrow> elapsedLabel d = whole_unit_label d) \<and>
   ago v label = format_d v @ '' '' @ (if v > 1 then label @ ''s'' else label) @ '' ago'' \<and>
   elapsedLabel (400 * 86400000000000) = ''1 year ago'' \<and>
   elapsedLabel (10 * 86400000000000) = ''1 week ago'' \<and>
   elapsedLabel (1 * 86400000000000) = ''1 day ago''"
proof -
  have g1: "0 \<le> d \<and> d < 2 ^ 63 \<and> clear_of_boundaries d \<longrightarrow> elapsedLabel d = whole_unit_label d"
    using elapsedLabel_clear [of d] by blast
  have g2: "0 \<le> d \<and> d < 2 ^ 63 \<and> 1000000000 dvd d \<longrightarrow> elapsedLabel d = whole_unit_label d"
    using elapsedLabel_whole_seconds [of d] by blast
  have p: "ago v label = format_d v @ '' '' @ (if v > 1 then label @ ''s'' else label) @ '' ago''"
    by (simp add: ago_def plural_def)
  note e = elapsedLabel_examples(1-3)
  show ?thesis by (intro conjI; fact g1 g2 p e)
qed

theorem elapsedLabel_largest_unit_witness:
  "clear_of_boundaries 90000000001 \<and> elapsedLabel 90000000001 = ''1 minute ago'' \<and>
   elapsedLabel (3 * 3600000000000) = ''3 hours ago''"
proof -
  have c: "0 \<le> (90000000001::int) \<and> (90000000001::int) < 2 ^ 63 \<and> clear_of_boundaries 90000000001"
    by code_simp
  have w: "whole_unit_label 90000000001 = ''1 minute ago''"
    "whole_unit_label (3 * 3600000000000) = ''3 hours ago''" by code_simp+
  have s: "0 \<le> (3 * 3600000000000::int) \<and> (3 * 3600000000000::int) < 2 ^ 63
      \<and> 1000000000 dvd (3 * 3600000000000::int)" by simp
  from elapsedLabel_largest_unit [of 90000000001] c
  have "elapsedLabel 90000000001 = whole_unit_label 90000000001" by blast
  moreover from elapsedLabel_largest_unit [of "3 * 3600000000000"] s
  have "elapsedLabel (3 * 3600000000000) = whole_unit_label (3 * 3600000000000)" by blast
  ultimately show ?thesis using c w by simp
qed

subsection \<open>C9: the short identifier of the listings\<close>

lemma short_id_iff:
  "short_id a = Inr s \<longleftrightarrow> (19 \<le> length (Id' a) \<and> s = take 12 (drop 7 (Id' a)))"
  by (auto simp: short_id_def slice_def)

lemma short_id_error: "short_id a = Inl e \<longleftrightarrow> (length (Id' a) < 19 \<and> e = SliceBounds)"
  by (auto simp: short_id_def slice_def)

lemma each_short_id:
  "each short_id as =
     (if \<forall>a \<in> set as. 19 \<le> length (Id' a) then Inr (map (\<lambda>a. take 12 (drop 7 (Id' a))) as)
      else Inl SliceBounds)"
proof (induction as)
  case Nil
  then show ?case by simp
next
  case (Cons a as)
  show ?case
  proof (cases "19 \<le> length (Id' a)")
    case True
    then have "short_id a = Inr (take 12 (drop 7 (Id' a)))" by (simp add: short_id_iff)
    with True Cons.IH show ?thesis by simp
  next
    case False
    then have "short_id a = Inl SliceBounds" by (simp add: short_id_error)
    with False show ?thesis by auto
  qed
qed

lemma each_Inr_all: "each f xs = Inr ys \<Longrightarrow> x \<in> set xs \<Longrightarrow> \<exists>y. f x = Inr y"
  by (induction xs arbitrary: ys) (auto split: sum.splits)

lemma each_Inl_some: "each f xs = Inl e \<Longrightarrow> \<exists>x \<in> set xs. f x = Inl e"
  by (induction xs) (auto split: sum.splits)

lemma each_map: "(\<forall>x \<in> set xs. f x = Inr (g x)) \<Longrightarrow> each f xs = Inr (map g xs)"
  by (induction xs) auto

lemma list_tags_nonempty: "list_tags a \<noteq> []"
  by (simp add: list_tags_def)

lemma list_tags_eq: "list_tags a = (if Tags a = [] then [''<none>''] else Tags a)"
  by (simp add: list_tags_def)

lemma short_id_eq:
  "short_id a = (if 19 \<le> length (Id' a) then Inr (take 12 (drop 7 (Id' a))) else Inl SliceBounds)"
  by (simp add: short_id_def slice_def)

lemma list_row_Inr_iff:
  "list_row since repo a tag = Inr row \<longleftrightarrow>
     (19 \<le> length (Id' a) \<and>
      (\<exists>elapsed. since (Created a) = Some elapsed \<and>
         row = [Repository repo, tag, take 12 (drop 7 (Id' a)), Type a,
                elapsedLabel elapsed, Size a]))"
  by (cases "since (Created a)") (auto simp: list_row_def short_id_eq toElapsedLabel_def)

lemma list_row_Inl:
  "list_row since repo a tag = Inl e \<Longrightarrow>
     (e = SliceBounds \<and> length (Id' a) < 19) \<or> (e = BadTime \<and> since (Created a) = None)"
  by (cases "since (Created a)")
    (auto simp: list_row_def short_id_eq toElapsedLabel_def split: if_splits)

lemma list_rows_Inr:
  assumes "list_rows since repo = Inr rows" and "a \<in> set (Artefacts repo)"
  shows "19 \<le> length (Id' a) \<and> since (Created a) \<noteq> None"
proof -
  obtain tag where "tag \<in> set (list_tags a)"
    using list_tags_nonempty [of a] by (cases "list_tags a") auto
  with assms(2) have
    "(a, tag) \<in> set (concat (map (\<lambda>a. map (\<lambda>tag. (a, tag)) (list_tags a)) (Artefacts repo)))"
    by auto
  from each_Inr_all [OF assms(1) [unfolded list_rows_def] this]
  show ?thesis by (auto simp: list_row_Inr_iff)
qed

lemma list_rows_Inl:
  assumes "list_rows since repo = Inl e"
  shows "\<exists>a \<in> set (Artefacts repo).
    (e = SliceBounds \<and> length (Id' a) < 19) \<or> (e = BadTime \<and> since (Created a) = None)"
proof -
  from each_Inl_some [OF assms [unfolded list_rows_def]]
  show ?thesis by (auto dest: list_row_Inl)
qed

lemma list_rows_ok:
  assumes "\<forall>a \<in> set (Artefacts repo). 19 \<le> length (Id' a) \<and> since (Created a) \<noteq> None"
  shows "list_rows since repo =
    Inr (concat (map (\<lambda>a.
         map (\<lambda>tag. [Repository repo, tag, take 12 (drop 7 (Id' a)), Type a,
                     (case since (Created a) of Some elapsed \<Rightarrow> elapsedLabel elapsed | None \<Rightarrow> []),
                     Size a])
           (if Tags a = [] then [''<none>''] else Tags a))
         (Artefacts repo)))"
proof -
  let ?g = "\<lambda>(a, tag). [Repository repo, tag, take 12 (drop 7 (Id' a)), Type a,
                     (case since (Created a) of Some elapsed \<Rightarrow> elapsedLabel elapsed | None \<Rightarrow> []),
                     Size a]"
  let ?pairs = "concat (map (\<lambda>a. map (\<lambda>tag. (a, tag)) (list_tags a)) (Artefacts repo))"
  have "\<forall>x \<in> set ?pairs. (case x of (a, tag) \<Rightarrow> list_row since repo a tag) = Inr (?g x)"
    using assms by (auto simp: list_row_Inr_iff)
  from each_map [OF this] have "list_rows since repo = Inr (map ?g ?pairs)"
    by (simp add: list_rows_def)
  also have "map ?g ?pairs = concat (map (\<lambda>a.
         map (\<lambda>tag. [Repository repo, tag, take 12 (drop 7 (Id' a)), Type a,
                     (case since (Created a) of Some elapsed \<Rightarrow> elapsedLabel elapsed | None \<Rightarrow> []),
                     Size a])
           (if Tags a = [] then [''<none>''] else Tags a))
         (Artefacts repo))"
    by (simp add: map_concat comp_def list_tags_eq)
  finally show ?thesis .
qed

lemma List_ok:
  assumes "\<forall>repo \<in> set (Repositories r). \<forall>a \<in> set (Artefacts repo).
      19 \<le> length (Id' a) \<and> since (Created a) \<noteq> None"
  shows "List since r =
    Inr ([''REPOSITORY'', ''TAG'', ''ARTEFACT ID'', ''ARTEFACT TYPE'', ''CREATED'', ''SIZE'']
         # listed_rows since r)"
proof -
  let ?g = "\<lambda>repo. concat (map (\<lambda>a.
         map (\<lambda>tag. [Repository repo, tag, take 12 (drop 7 (Id' a)), Type a,
                     (case since (Created a) of Some elapsed \<Rightarrow> elapsedLabel elapsed | None \<Rightarrow> []),
                     Size a])
           (if Tags a = [] then [''<none>''] else Tags a))
         (Artefacts repo))"
  have "\<forall>repo \<in> set (Repositories r). list_rows since repo = Inr (?g repo)"
    using assms by (auto intro!: list_rows_ok)
  from each_map [OF this] show ?thesis
    by (simp add: List_def listed_rows_def)
qed

lemma List_Inr:
  assumes "List since r = Inr rows"
  shows "\<forall>repo \<in> set (Repositories r). \<forall>a \<in> set (Artefacts repo).
      19 \<le> length (Id' a) \<and> since (Created a) \<noteq> None"
proof (intro ballI)
  fix repo a
  assume repo: "repo \<in> set (Repositories r)" and a: "a \<in> set (Artefacts repo)"
  from assms obtain rs where "each (list_rows since) (Repositories r) = Inr rs"
    by (auto simp: List_def split: sum.splits)
  from each_Inr_all [OF this repo] obtain rows' where "list_rows since repo = Inr rows'" ..
  from list_rows_Inr [OF this a]
  show "19 \<le> length (Id' a) \<and> since (Created a) \<noteq> None" .
qed

lemma List_Inl:
  assumes "List since r = Inl e"
  shows "\<exists>repo \<in> set (Repositories r). \<exists>a \<in> set (Artefacts repo).
    (e = SliceBounds \<and> length (Id' a) < 19) \<or> (e = BadTime \<and> since (Created a) = None)"
proof -
  from assms have "each (list_rows since) (Repositories r) = Inl e"
    by (auto simp: List_def split: sum.splits)
  from each_Inl_some [OF this] obtain repo where
    "repo \<in> set (Repositories r)" "list_rows since repo = Inl e" by auto
  with list_rows_Inl [of since repo e] show ?thesis by blast
qed

text \<open>
  C9. \<^verbatim>\<open>List\<close> and \<^verbatim>\<open>ListQ\<close> take the short identifier as the slice \<^verbatim>\<open>[7:19]\<close> of the Id of
  the artefact: the twelve characters behind the first seven, and out of range exactly
  when the Id is shorter than 19. \<^verbatim>\<open>ListQ\<close> returns its lines, the slices of all Ids,
  exactly when every Id of the registry has at least 19 characters, and fails on the
  slice otherwise. \<^verbatim>\<open>List\<close> returns only when every Id has at least 19 characters (and
  every creation time parses); it then returns the header and the rows of the
  specification, with the slice as the third cell of every row. When all Ids have 19
  characters it does not fail on the slice, and when all creation times parse and some
  Id is shorter it fails on the slice.
\<close>

theorem listings_slice_in_bounds:
  "(\<forall>a. short_id a = (if 19 \<le> length (Id' a) then Inr (take 12 (drop 7 (Id' a)))
                        else Inl SliceBounds)) \<and>
   ListQ r =
     (if \<forall>repo \<in> set (Repositories r). \<forall>a \<in> set (Artefacts repo). 19 \<le> length (Id' a)
      then Inr (map (\<lambda>a. take 12 (drop 7 (Id' a))) (concat (map Artefacts (Repositories r))))
      else Inl SliceBounds) \<and>
   ((\<exists>rows. List since r = Inr rows) \<longrightarrow>
      (\<forall>repo \<in> set (Repositories r). \<forall>a \<in> set (Artefacts repo). 19 \<le> length (Id' a))) \<and>
   ((\<forall>repo \<in> set (Repositories r). \<forall>a \<in> set (Artefacts repo). 19 \<le> length (Id' a)) \<longrightarrow>
      List since r \<noteq> Inl SliceBounds) \<and>
   ((\<forall>repo \<in> set (Repositories r). \<forall>a \<in> set (Artefacts repo).
        19 \<le> length (Id' a) \<and> since (Created a) \<noteq> None) \<longrightarrow>
      List since r =
        Inr ([''REPOSITORY'', ''TAG'', ''ARTEFACT ID'', ''ARTEFACT TYPE'', ''CREATED'', ''SIZE'']
             # listed_rows since r)) \<and>
   (\<forall>rows. List since r = Inr rows \<longrightarrow>
      rows = [''REPOSITORY'', ''TAG'', ''ARTEFACT ID'', ''ARTEFACT TYPE'', ''CREATED'', ''SIZE'']
             # listed_rows since r \<and>
      (\<forall>repo \<in> set (Repositories r). \<forall>a \<in> set (Artefacts repo). since (Created a) \<noteq> None)) \<and>
   ((\<forall>repo \<in> set (Repositories r). \<forall>a \<in> set (Artefacts repo). since (Created a) \<noteq> None) \<and>
    (\<exists>repo \<in> set (Repositories r). \<exists>a \<in> set (Artefacts repo). length (Id' a) < 19) \<longrightarrow>
      List since r = Inl SliceBounds)"
proof -
  have s: "\<forall>a. short_id a = (if 19 \<le> length (Id' a) then Inr (take 12 (drop 7 (Id' a)))
                        else Inl SliceBounds)"
    by (simp add: short_id_def slice_def)
  have q: "ListQ r =
     (if \<forall>repo \<in> set (Repositories r). \<forall>a \<in> set (Artefacts repo). 19 \<le> length (Id' a)
      then Inr (map (\<lambda>a. take 12 (drop 7 (Id' a))) (concat (map Artefacts (Repositories r))))
      else Inl SliceBounds)"
    unfolding ListQ_def each_short_id by auto
  have l1: "(\<exists>rows. List since r = Inr rows) \<longrightarrow>
      (\<forall>repo \<in> set (Repositories r). \<forall>a \<in> set (Artefacts repo). 19 \<le> length (Id' a))"
    using List_Inr [of since r] by blast
  have l2: "(\<forall>repo \<in> set (Repositories r). \<forall>a \<in> set (Artefacts repo). 19 \<le> length (Id' a)) \<longrightarrow>
      List since r \<noteq> Inl SliceBounds"
    using List_Inl [of since r SliceBounds] by fastforce
  have l3: "(\<forall>repo \<in> set (Repositories r). \<forall>a \<in> set (Artefacts repo).
        19 \<le> length (Id' a) \<and> since (Created a) \<noteq> None) \<longrightarrow>
      List since r =
        Inr ([''REPOSITORY'', ''TAG'', ''ARTEFACT ID'', ''ARTEFACT TYPE'', ''CREATED'', ''SIZE'']
             # listed_rows since r)"
    using List_ok [of r since] by blast
  have l4: "\<forall>rows. List since r = Inr rows \<longrightarrow>
      rows = [''REPOSITORY'', ''TAG'', ''ARTEFACT ID'', ''ARTEFACT TYPE'', ''CREATED'', ''SIZE'']
             # listed_rows since r \<and>
      (\<forall>repo \<in> set (Repositories r). \<forall>a \<in> set (Artefacts repo). since (Created a) \<noteq> None)"
  proof (intro allI impI)
    fix rows
    assume ok: "List since r = Inr rows"
    from List_Inr [OF ok] have all: "\<forall>repo \<in> set (Repositories r). \<forall>a \<in> set (Artefacts repo).
      19 \<le> length (Id' a) \<and> since (Created a) \<noteq> None" .
    from List_ok [OF all] ok
    have "rows = [''REPOSITORY'', ''TAG'', ''ARTEFACT ID'', ''ARTEFACT TYPE'', ''CREATED'', ''SIZE'']
             # listed_rows since r" by simp
    with all show "rows = [''REPOSITORY'', ''TAG'', ''ARTEFACT ID'', ''ARTEFACT TYPE'', ''CREATED'', ''SIZE'']
             # listed_rows since r \<and>
      (\<forall>repo \<in> set (Repositories r). \<forall>a \<in> set (Artefacts repo). since (Created a) \<noteq> None)"
      by blast
  qed
  have l5: "(\<forall>repo \<in> set (Repositories r). \<forall>a \<in> set (Artefacts repo). since (Created a) \<noteq> None) \<and>
    (\<exists>repo \<in> set (Repositories r). \<exists>a \<in> set (Artefacts repo). length (Id' a) < 19) \<longrightarrow>
      List since r = Inl SliceBounds"
  proof
    assume h: "(\<forall>repo \<in> set (Repositories r). \<forall>a \<in> set (Artefacts repo). since (Created a) \<noteq> None) \<and>
      (\<exists>repo \<in> set (Repositories r). \<exists>a \<in> set (Artefacts repo). length (Id' a) < 19)"
    show "List since r = Inl SliceBounds"
    proof (cases "List since r")
      case (Inl e)
      from List_Inl [OF Inl] h have "e = SliceBounds" by blast
      with Inl show ?thesis by simp
    next
      case (Inr rows)
      from List_Inr [OF Inr] h show ?thesis by fastforce
    qed
  qed
  show ?thesis by (intro conjI; fact)
qed

theorem listings_slice_in_bounds_witness:
  "ListQ two_candidates = Inr [''00abc123ffff'', ''77abc123eeee''] \<and>
   ListQ \<lparr>Repositories = [\<lparr>Repository = ''localhost/demo/app'',
             Artefacts = [built \<lparr>ArtefactId = ''sha256:0123'', ManifestType = ''jar'',
                                  ManifestSize = ''1MB'', ManifestTime = ''''\<rparr> ''p1'' [''v1'']]\<rparr>]\<rparr>
     = Inl SliceBounds \<and>
   List (\<lambda>label. Some 90000000000) two_candidates =
     Inr [[''REPOSITORY'', ''TAG'', ''ARTEFACT ID'', ''ARTEFACT TYPE'', ''CREATED'', ''SIZE''],
          [''localhost/demo/app'', ''v1'', ''00abc123ffff'', ''jar'', ''1 minute ago'', ''1MB''],
          [''localhost/demo/lib'', ''v1'', ''77abc123eeee'', ''jar'', ''1 minute ago'', ''2MB'']]"
proof -
  have ok: "\<forall>repo \<in> set (Repositories two_candidates). \<forall>a \<in> set (Artefacts repo).
      19 \<le> length (Id' a) \<and> (\<lambda>label. Some 90000000000) (Created a) \<noteq> None"
    by (simp add: two_candidates_def)
  have rows: "listed_rows (\<lambda>label. Some 90000000000) two_candidates =
     [[''localhost/demo/app'', ''v1'', ''00abc123ffff'', ''jar'', ''1 minute ago'', ''1MB''],
      [''localhost/demo/lib'', ''v1'', ''77abc123eeee'', ''jar'', ''1 minute ago'', ''2MB'']]"
    by (simp add: listed_rows_def two_candidates_def elapsedLabel_examples(4))
  have q1: "ListQ two_candidates = Inr [''00abc123ffff'', ''77abc123eeee'']" by code_simp
  have q2: "ListQ \<lparr>Repositories = [\<lparr>Repository = ''localhost/demo/app'',
             Artefacts = [built \<lparr>ArtefactId = ''sha256:0123'', ManifestType = ''jar'',
                                  ManifestSize = ''1MB'', ManifestTime = ''''\<rparr> ''p1'' [''v1'']]\<rparr>]\<rparr>
     = Inl SliceBounds" by code_simp
  from listings_slice_in_bounds [of two_candidates "\<lambda>label. Some 90000000000"] ok
  have "List (\<lambda>label. Some 90000000000) two_candidates =
        Inr ([''REPOSITORY'', ''TAG'', ''ARTEFACT ID'', ''ARTEFACT TYPE'', ''CREATED'', ''SIZE'']
             # listed_rows (\<lambda>label. Some 90000000000) two_candidates)"
    by (elim conjE) (erule mp)
  with rows q1 q2 show ?thesis by simp
qed

subsection \<open>C7: Add takes the tag from its holder\<close>

lemma first_index_map_cong:
  "map P xs = map Q ys \<Longrightarrow> first_index P xs = first_index Q ys"
proof (induction xs arbitrary: ys)
  case Nil
  then show ?case by simp
next
  case (Cons x xs)
  then obtain y ys' where ys: "ys = y # ys'" by (cases ys) auto
  with Cons.prems have "P x = Q y" "map P xs = map Q ys'" by auto
  with Cons.IH [of ys'] ys show ?case by simp
qed

lemma filter_upt_single:
  assumes "m < n" and "\<forall>k < n. P k \<longleftrightarrow> k = m"
  shows "filter P [0..<n] = [m]"
proof -
  have split: "[0..<n] = [0..<m] @ m # [Suc m..<n]"
    using assms(1) by (metis le0 upt_conv_Cons upt_add_eq_append le_add_diff_inverse less_imp_le)
  have "filter P [0..<n] = filter (\<lambda>k. k = m) [0..<n]"
    using assms(2) by (intro filter_cong) auto
  also have "\<dots> = [m]"
    by (subst split) (auto simp: filter_empty_conv)
  finally show ?thesis .
qed

lemma filter_upt_singleD:
  assumes "filter P [0..<n] = [m]"
  shows "m < n \<and> (\<forall>k < n. P k \<longleftrightarrow> k = m)"
proof -
  have "set (filter P [0..<n]) = {m}" using assms by simp
  then have "{k. k < n \<and> P k} = {m}" by (auto simp: set_eq_iff)
  then show ?thesis by blast
qed

lemma remove1_filter: "count_list xs t = 1 \<Longrightarrow> remove1 t xs = filter (\<lambda>x. x \<noteq> t) xs"
proof (induction xs)
  case Nil
  then show ?case by simp
next
  case (Cons x xs)
  show ?case
  proof (cases "x = t")
    case True
    with Cons.prems have "count_list xs t = 0" by simp
    then have "t \<notin> set xs" by (simp add: count_list_0_iff)
    then have "filter (\<lambda>x. x \<noteq> t) xs = xs" by (auto simp: filter_id_conv)
    with True show ?thesis by simp
  next
    case False
    with Cons show ?thesis by simp
  qed
qed

lemma GetArtefact_loop_named:
  assumes "first_index (\<lambda>repo. Repository repo = FullyQualifiedName name) repos = Some i"
    and "first_index (\<lambda>a. HasTag a (Tag name)) (Artefacts (repos ! i)) = Some j"
    and "GetArtefact_loop name repos k found = Inr res"
  shows "res = Some (k + i, j)"
  using assms
proof (induction repos arbitrary: i k found)
  case Nil
  then show ?case by simp
next
  case (Cons repo rest)
  show ?case
  proof (cases "Repository repo = FullyQualifiedName name")
    case True
    with Cons.prems(1) have "i = 0" by simp
    with True Cons.prems(2,3) show ?thesis by simp
  next
    case False
    with Cons.prems(1) obtain i' where i: "i = Suc i'"
      and f: "first_index (\<lambda>repo. Repository repo = FullyQualifiedName name) rest = Some i'"
      by auto
    from Cons.prems(2) i
    have h: "first_index (\<lambda>a. HasTag a (Tag name)) (Artefacts (rest ! i')) = Some j" by simp
    let ?found' = "found @ id_matches k (Artefacts repo) (Name name)"
    from False Cons.prems(3)
    have "GetArtefact_loop name rest (Suc k) ?found' = Inr res"
      by (simp add: Let_def split: if_splits)
    from Cons.IH [OF f h this] i show ?thesis by simp
  qed
qed

lemma tag_holders_single:
  "tag_holders repo tag = [j] \<longleftrightarrow>
     (j < length (Artefacts repo) \<and>
      (\<forall>k < length (Artefacts repo). HasTag (Artefacts repo ! k) tag \<longleftrightarrow> k = j))"
  unfolding tag_holders_def
  using filter_upt_single [of j "length (Artefacts repo)" "\<lambda>k. HasTag (Artefacts repo ! k) tag"]
    filter_upt_singleD [of "\<lambda>k. HasTag (Artefacts repo ! k) tag" "length (Artefacts repo)" j]
  by blast

lemma unTag_named:
  assumes repo: "first_index (\<lambda>repo. Repository repo = FullyQualifiedName name) (Repositories r) = Some i"
    and holder: "first_index (\<lambda>a. HasTag a (Tag name)) (Artefacts (Repositories r ! i)) = Some j"
    and ok: "unTag r name tag = Inr r1"
  shows "r1 = update_artefact r (i, j) (\<lambda>a. a\<lparr>Tags := RemoveElement (Tags a) tag\<rparr>)"
proof -
  from ok obtain res where g: "GetArtefact r name = Inr res"
    by (cases "GetArtefact r name") (auto simp: unTag_def)
  from GetArtefact_loop_named [OF repo holder g [unfolded GetArtefact_def]]
  have "res = Some (i, j)" by simp
  with g ok show ?thesis by (simp add: unTag_def)
qed

lemma findRepository_named:
  assumes "first_index (\<lambda>repo. Repository repo = FullyQualifiedName name) (Repositories r) = Some i"
    and "map Repository (Repositories r1) = map Repository (Repositories r)"
  shows "findRepository r1 name = Some i"
proof -
  have "map (\<lambda>repo. Repository repo = FullyQualifiedName name) (Repositories r1)
      = map (\<lambda>repo. Repository repo = FullyQualifiedName name) (Repositories r)"
    using arg_cong [OF assms(2), of "map (\<lambda>n. n = FullyQualifiedName name)"]
    by (simp add: comp_def)
  from first_index_map_cong [OF this] assms(1) show ?thesis
    by (simp add: findRepository_def)
qed

lemma Add_Inr:
  assumes "Add w file name s = Inr w'"
  shows "\<exists>r1. unTag (registry w) name (Tag name) = Inr r1 \<and>
     registry w' =
       update_repository (fst (new_repository name r1)) (snd (new_repository name r1))
         (\<lambda>rp. rp\<lparr>Artefacts := Artefacts rp @
            [\<lparr>Id' = ArtefactId s, Type = ManifestType s,
              FileRef = TrimSuffix (Base file) (Ext (Base file)),
              Tags = [Tag name], Size = ManifestSize s, Created = ManifestTime s\<rparr>]\<rparr>) \<and>
     document w' = registry w'"
  using assms
  by (auto simp: Add_def Let_def save_def split: if_splits sum.splits prod.splits)


lemma map_Repository_update:
  "Repository x = Repository (rs ! i) \<Longrightarrow> map Repository (rs[i := x]) = map Repository rs"
  by (metis list_update_id map_update)

text \<open>
  The claim C7 as stated fails where two artefacts of the repository hold the tag: Add
  takes it from the artefact the reference resolves to, the first holder, and the other
  holder keeps it. After the two Adds and the Tag below, the first artefact holds
  \<^verbatim>\<open>v1\<close> and \<^verbatim>\<open>v2\<close> and the second holds \<^verbatim>\<open>v2\<close>; Add to \<^verbatim>\<open>v2\<close> then leaves the tag on the
  second artefact as well as on the new one.
\<close>

theorem Add_leaves_second_holder:
  "outcome tags_of
       (run fresh [DoAdd p1 app_v1 seal1, DoAdd p2 app_v2 seal2, DoTag app_v1 app_v2]) =
     Inr [(''localhost/demo/app'',
           [(''sha256:1111aaaa2222bbbb3333'', [''v1'', ''v2'']),
            (''sha256:4444dddd5555eeee6666'', [''v2''])])] \<and>
   outcome tags_of
       (run fresh [DoAdd p1 app_v1 seal1, DoAdd p2 app_v2 seal2, DoTag app_v1 app_v2,
                   DoAdd p3 app_v2 seal3]) =
     Inr [(''localhost/demo/app'',
           [(''sha256:1111aaaa2222bbbb3333'', [''v1'']),
            (''sha256:4444dddd5555eeee6666'', [''v2'']),
            (''sha256:9cafe0123456789abcde'', [''v2''])])]"
  by code_simp

text \<open>
  C7 (amended). Let Add complete, let the repository of the fully-qualified name
  exist, and let exactly one of its artefacts hold the target tag, once in its tag list.
  Then no repository is created or removed and the other repositories stay as they
  are. In the target repository every other artefact stays as it is at its position;
  the holder stays at its position with all its fields but the tags, and its tags are
  the tags it had without the target tag (none, if the tag was its only one); the new
  artefact, with the Id of the seal and the tag as its only tag, is appended; and the new
  artefact is the only holder of the tag.
\<close>

theorem Add_moves_tag:
  assumes add: "Add w file name s = Inr w'"
    and repo: "first_index (\<lambda>repo. Repository repo = FullyQualifiedName name)
                 (Repositories (registry w)) = Some i"
    and holder: "tag_holders (Repositories (registry w) ! i) (Tag name) = [j]"
    and once: "count_list (Tags (Artefacts (Repositories (registry w) ! i) ! j)) (Tag name) = 1"
  shows "map Repository (Repositories (registry w')) = map Repository (Repositories (registry w)) \<and>
     (\<forall>k < length (Repositories (registry w)). k \<noteq> i \<longrightarrow>
        Repositories (registry w') ! k = Repositories (registry w) ! k) \<and>
     length (Artefacts (Repositories (registry w') ! i)) =
       Suc (length (Artefacts (Repositories (registry w) ! i))) \<and>
     (\<forall>k < length (Artefacts (Repositories (registry w) ! i)). k \<noteq> j \<longrightarrow>
        Artefacts (Repositories (registry w') ! i) ! k =
        Artefacts (Repositories (registry w) ! i) ! k) \<and>
     Artefacts (Repositories (registry w') ! i) ! j =
       (Artefacts (Repositories (registry w) ! i) ! j)
         \<lparr>Tags := Tags (Artefacts (Repositories (registry w') ! i) ! j)\<rparr> \<and>
     mset (Tags (Artefacts (Repositories (registry w') ! i) ! j)) =
       mset (Tags (Artefacts (Repositories (registry w) ! i) ! j)) - {#Tag name#} \<and>
     Artefacts (Repositories (registry w') ! i) ! length (Artefacts (Repositories (registry w) ! i)) =
       \<lparr>Id' = ArtefactId s, Type = ManifestType s,
        FileRef = TrimSuffix (Base file) (Ext (Base file)),
        Tags = [Tag name], Size = ManifestSize s, Created = ManifestTime s\<rparr> \<and>
     tag_holders (Repositories (registry w') ! i) (Tag name) =
       [length (Artefacts (Repositories (registry w) ! i))]"
proof -
  let ?repos = "Repositories (registry w)"
  let ?old = "Artefacts (?repos ! i)"
  let ?t = "Tag name"
  let ?new = "\<lparr>Id' = ArtefactId s, Type = ManifestType s,
            FileRef = TrimSuffix (Base file) (Ext (Base file)),
            Tags = [?t], Size = ManifestSize s, Created = ManifestTime s\<rparr>"
  let ?stripped = "?old[j := (?old ! j)\<lparr>Tags := RemoveElement (Tags (?old ! j)) ?t\<rparr>]"
  from holder have j: "j < length ?old"
    and only: "\<forall>k < length ?old. HasTag (?old ! k) ?t \<longleftrightarrow> k = j"
    by (simp_all add: tag_holders_single)
  then have first: "first_index (\<lambda>a. HasTag a ?t) ?old = Some j"
    by (simp add: first_index_Some)
  from repo have i: "i < length ?repos" by (simp add: first_index_Some)
  from once have gone: "?t \<notin> set (RemoveElement (Tags (?old ! j)) ?t)"
    by (simp add: RemoveElement_def remove1_filter)
  have rest: "mset (RemoveElement (Tags (?old ! j)) ?t) = mset (Tags (?old ! j)) - {#?t#}"
    by (simp add: RemoveElement_def)
  from Add_Inr [OF add] obtain r1 where
    untag: "unTag (registry w) name ?t = Inr r1"
    and reg: "registry w' =
       update_repository (fst (new_repository name r1)) (snd (new_repository name r1))
         (\<lambda>rp. rp\<lparr>Artefacts := Artefacts rp @ [?new]\<rparr>)"
    by blast
  from unTag_named [OF repo first untag]
  have r1: "Repositories r1 = ?repos[i := (?repos ! i)\<lparr>Artefacts := ?stripped\<rparr>]"
    by (simp add: update_artefact_def update_repository_def)
  then have "map Repository (Repositories r1) = map Repository ?repos"
    by (simp add: map_Repository_update)
  from findRepository_named [OF repo this]
  have "new_repository name r1 = (r1, i)" by (simp add: new_repository_def)
  with reg r1 i
  have final: "Repositories (registry w') =
      ?repos[i := (?repos ! i)\<lparr>Artefacts := ?stripped @ [?new]\<rparr>]"
    by (simp add: update_repository_def)
  have names: "map Repository (Repositories (registry w')) = map Repository ?repos"
    unfolding final by (simp add: map_Repository_update)
  have others: "\<forall>k < length ?repos. k \<noteq> i \<longrightarrow> Repositories (registry w') ! k = ?repos ! k"
    unfolding final by simp
  have arts: "Artefacts (Repositories (registry w') ! i) = ?stripped @ [?new]"
    unfolding final using i by simp
  have len: "length (Artefacts (Repositories (registry w') ! i)) = Suc (length ?old)"
    by (simp add: arts)
  have same: "\<forall>k < length ?old. k \<noteq> j \<longrightarrow>
      Artefacts (Repositories (registry w') ! i) ! k = ?old ! k"
    by (simp add: arts nth_append)
  have kept: "Artefacts (Repositories (registry w') ! i) ! j =
      (?old ! j)\<lparr>Tags := Tags (Artefacts (Repositories (registry w') ! i) ! j)\<rparr>"
    using j by (simp add: arts nth_append)
  have tags: "mset (Tags (Artefacts (Repositories (registry w') ! i) ! j)) =
      mset (Tags (?old ! j)) - {#?t#}"
    using j rest by (simp add: arts nth_append)
  have last: "Artefacts (Repositories (registry w') ! i) ! length ?old = ?new"
    by (simp add: arts nth_append)
  have "\<forall>k < length (?stripped @ [?new]).
      HasTag ((?stripped @ [?new]) ! k) ?t \<longleftrightarrow> k = length ?old"
  proof (intro allI impI)
    fix k
    assume k: "k < length (?stripped @ [?new])"
    show "HasTag ((?stripped @ [?new]) ! k) ?t \<longleftrightarrow> k = length ?old"
    proof (cases "k = length ?old")
      case True
      then show ?thesis by (simp add: nth_append HasTag_def)
    next
      case False
      with k have lt: "k < length ?old" by simp
      show ?thesis
      proof (cases "k = j")
        case True
        with lt False gone show ?thesis by (simp add: nth_append HasTag_def)
      next
        case False
        with lt only \<open>k \<noteq> length ?old\<close> show ?thesis by (simp add: nth_append)
      qed
    qed
  qed
  then have holders: "tag_holders (Repositories (registry w') ! i) ?t = [length ?old]"
    by (simp add: tag_holders_single arts)
  show ?thesis
    by (intro conjI)
      (fact names, fact others, fact len, fact same, fact kept, fact tags, fact last,
       fact holders)
qed

theorem Add_moves_tag_witness:
  "outcome tags_of (Add one_app p2 app_v1 seal2) =
     Inr [(''localhost/demo/app'',
           [(''sha256:1111aaaa2222bbbb3333'', [''stable'']),
            (''sha256:4444dddd5555eeee6666'', [''v1''])])] \<and>
   tag_holders (Repositories (registry one_app) ! 0) (Tag app_v1) = [0] \<and>
   tag_holders (Repositories (registry (projr (Add one_app p2 app_v1 seal2))) ! 0) (Tag app_v1) = [1]"
proof -
  have add: "Add one_app p2 app_v1 seal2 = Inr (projr (Add one_app p2 app_v1 seal2))"
    by code_simp
  have repo: "first_index (\<lambda>repo. Repository repo = FullyQualifiedName app_v1)
                 (Repositories (registry one_app)) = Some 0"
    by code_simp
  have holder: "tag_holders (Repositories (registry one_app) ! 0) (Tag app_v1) = [0]"
    by code_simp
  have once: "count_list (Tags (Artefacts (Repositories (registry one_app) ! 0) ! 0)) (Tag app_v1) = 1"
    by code_simp
  have len: "length (Artefacts (Repositories (registry one_app) ! 0)) = 1"
    by code_simp
  have table: "outcome tags_of (Add one_app p2 app_v1 seal2) =
     Inr [(''localhost/demo/app'',
           [(''sha256:1111aaaa2222bbbb3333'', [''stable'']),
            (''sha256:4444dddd5555eeee6666'', [''v1''])])]"
    by code_simp
  from Add_moves_tag [OF add repo holder once] len
  have "tag_holders (Repositories (registry (projr (Add one_app p2 app_v1 seal2))) ! 0) (Tag app_v1) = [1]"
    by simp
  with table holder show ?thesis by (intro conjI)
qed

subsection \<open>C1: the tag invariant\<close>

text \<open>
  C1. The claim is that after any sequence of operations no tag is in the tag lists of
  two artefacts of one repository. The source breaks it: \<^verbatim>\<open>Tag\<close> within one repository
  appends the target tag to the source artefact when the source artefact does not have
  it, without a look at the other artefacts. Two Adds to the tags \<^verbatim>\<open>v1\<close> and \<^verbatim>\<open>v2\<close> of one
  repository keep the invariant; the Tag of \<^verbatim>\<open>v1\<close> as \<^verbatim>\<open>v2\<close> then leaves \<^verbatim>\<open>v2\<close> on both
  artefacts.
\<close>

theorem same_repository_Tag_shares_tag:
  "outcome tags_of (run fresh [DoAdd p1 app_v1 seal1, DoAdd p2 app_v2 seal2]) =
     Inr [(''localhost/demo/app'',
           [(''sha256:1111aaaa2222bbbb3333'', [''v1'']),
            (''sha256:4444dddd5555eeee6666'', [''v2''])])] \<and>
   outcome keeps_invariant (run fresh [DoAdd p1 app_v1 seal1, DoAdd p2 app_v2 seal2]) =
     Inr True \<and>
   outcome tags_of
       (run fresh [DoAdd p1 app_v1 seal1, DoAdd p2 app_v2 seal2, DoTag app_v1 app_v2]) =
     Inr [(''localhost/demo/app'',
           [(''sha256:1111aaaa2222bbbb3333'', [''v1'', ''v2'']),
            (''sha256:4444dddd5555eeee6666'', [''v2''])])] \<and>
   outcome keeps_invariant
       (run fresh [DoAdd p1 app_v1 seal1, DoAdd p2 app_v2 seal2, DoTag app_v1 app_v2]) =
     Inr False"
  by code_simp

subsection \<open>C2: the files of an artefact in use\<close>

text \<open>
  C2. The claim is that Remove deletes the files of an artefact only when no repository
  holds an artefact of that Id any more. The source breaks it on the path that removes by
  Id: the reference \<^verbatim>\<open>localhost/demo/cafe:latest\<close> resolves, by the fragment \<^verbatim>\<open>cafe\<close>, to
  an artefact of the repository \<^verbatim>\<open>localhost/demo/app\<close> that comes before the repository of
  that name; the tag is not among its tags, so the artefact to strip is looked for in
  \<^verbatim>\<open>localhost/demo/cafe\<close>, and the files of the artefact resolved are removed without the
  check of the other path. The artefact stays in the index and its two files are gone.
\<close>

theorem Remove_by_hint_deletes_files_in_use:
  "outcome tags_of
       (run fresh [DoAdd p1 app_v1 seal1, DoAdd p2 cafe_v1 seal2, DoAdd p3 app_v2 seal3]) =
     Inr [(''localhost/demo/app'',
           [(''sha256:1111aaaa2222bbbb3333'', [''v1'']),
            (''sha256:9cafe0123456789abcde'', [''v2''])]),
          (''localhost/demo/cafe'', [(''sha256:4444dddd5555eeee6666'', [''v1''])])] \<and>
   outcome (has_files ''p3'')
       (run fresh [DoAdd p1 app_v1 seal1, DoAdd p2 cafe_v1 seal2, DoAdd p3 app_v2 seal3]) =
     Inr (True, True) \<and>
   outcome tags_of
       (run fresh [DoAdd p1 app_v1 seal1, DoAdd p2 cafe_v1 seal2, DoAdd p3 app_v2 seal3,
                   DoRemove [cafe_latest]]) =
     Inr [(''localhost/demo/app'',
           [(''sha256:1111aaaa2222bbbb3333'', [''v1'']),
            (''sha256:9cafe0123456789abcde'', [''v2''])]),
          (''localhost/demo/cafe'', [(''sha256:4444dddd5555eeee6666'', [''v1''])])] \<and>
   outcome (has_files ''p3'')
       (run fresh [DoAdd p1 app_v1 seal1, DoAdd p2 cafe_v1 seal2, DoAdd p3 app_v2 seal3,
                   DoRemove [cafe_latest]]) =
     Inr (False, False)"
  by code_simp

subsection \<open>C3: Tag of a tag the target repository holds\<close>

text \<open>
  C3. The claim is that Tag into another repository leaves the artefact that holds the
  target tag there as it is. The source breaks it when the holder has another tag too:
  the loop over its tags appends the target tag once for every tag that differs from it.
  With the tags \<^verbatim>\<open>v1\<close> and \<^verbatim>\<open>v2\<close> on the artefact of \<^verbatim>\<open>localhost/demo/lib\<close>, Tag to
  \<^verbatim>\<open>v1\<close> leaves it with \<^verbatim>\<open>v1\<close>, \<^verbatim>\<open>v2\<close>, \<^verbatim>\<open>v1\<close>.
\<close>

theorem Tag_of_held_tag_changes_holder:
  "outcome tags_of
       (run fresh [DoAdd p1 app_v1 seal1, DoTag app_v1 lib_v1, DoTag app_v1 lib_v2]) =
     Inr [(''localhost/demo/app'', [(''sha256:1111aaaa2222bbbb3333'', [''v1''])]),
          (''localhost/demo/lib'', [(''sha256:1111aaaa2222bbbb3333'', [''v1'', ''v2''])])] \<and>
   outcome tags_of
       (run fresh [DoAdd p1 app_v1 seal1, DoTag app_v1 lib_v1, DoTag app_v1 lib_v2,
                   DoTag app_v1 lib_v1]) =
     Inr [(''localhost/demo/app'', [(''sha256:1111aaaa2222bbbb3333'', [''v1''])]),
          (''localhost/demo/lib'', [(''sha256:1111aaaa2222bbbb3333'', [''v1'', ''v2'', ''v1''])])]"
  by code_simp

subsection \<open>C5: every change is saved\<close>

text \<open>
  C5. The claim is that no operation returns with the index changed and the document
  not written. The source breaks it in the branch of Tag for a target reference that
  resolves to an artefact: the tag list changes and \<^verbatim>\<open>save\<close> is not called. After the run
  of C3 the index has the tags \<^verbatim>\<open>v1\<close>, \<^verbatim>\<open>v2\<close>, \<^verbatim>\<open>v1\<close> and the document \<^verbatim>\<open>v1\<close>, \<^verbatim>\<open>v2\<close>.
\<close>

theorem Tag_of_held_tag_is_not_saved:
  "outcome is_saved
       (run fresh [DoAdd p1 app_v1 seal1, DoTag app_v1 lib_v1, DoTag app_v1 lib_v2]) =
     Inr True \<and>
   outcome tags_of
       (run fresh [DoAdd p1 app_v1 seal1, DoTag app_v1 lib_v1, DoTag app_v1 lib_v2,
                   DoTag app_v1 lib_v1]) =
     Inr [(''localhost/demo/app'', [(''sha256:1111aaaa2222bbbb3333'', [''v1''])]),
          (''localhost/demo/lib'', [(''sha256:1111aaaa2222bbbb3333'', [''v1'', ''v2'', ''v1''])])] \<and>
   outcome saved_tags_of
       (run fresh [DoAdd p1 app_v1 seal1, DoTag app_v1 lib_v1, DoTag app_v1 lib_v2,
                   DoTag app_v1 lib_v1]) =
     Inr [(''localhost/demo/app'', [(''sha256:1111aaaa2222bbbb3333'', [''v1''])]),
          (''localhost/demo/lib'', [(''sha256:1111aaaa2222bbbb3333'', [''v1'', ''v2''])])] \<and>
   outcome is_saved
       (run fresh [DoAdd p1 app_v1 seal1, DoTag app_v1 lib_v1, DoTag app_v1 lib_v2,
                   DoTag app_v1 lib_v1]) =
     Inr False"
  by code_simp

end
